theory Spec2Isabelle
  imports Complex_Main "HOL-Library.Signed_Division"
begin

section \<open>The heatmap generator of \<^verbatim>\<open>generate-heatmap.mjs\<close>\<close>

text \<open>
  The script queries a database for dated records, counts the records of each calendar
  day (\<^verbatim>\<open>fetchCounts\<close>) and lays the counts of one year out as an SVG calendar of
  12 months by 5 week columns (\<^verbatim>\<open>generateHeatmapSVG\<close>), which a headless browser
  then captures. This theory embeds the two pure parts and the numbers of the capture.

  Conventions of the embedding.
  \<^item> A JavaScript number that is an integer or \<^verbatim>\<open>NaN\<close> is an \<open>int option\<close>, with
    \<open>None\<close> for \<^verbatim>\<open>NaN\<close>. Numbers that cannot be \<^verbatim>\<open>NaN\<close> are plain \<open>int\<close> or \<open>nat\<close>.
    All magnitudes stay far below \<open>2^53\<close>, where the arithmetic of doubles is exact.
  \<^item> An exception is a value \<open>Inl TypeError\<close> of a sum type.
  \<^item> The string \<^verbatim>\<open>svg\<close> that the renderer appends to is the list of the fragments
    appended, one \<open>element\<close> per template literal; \<open>markup\<close> gives each fragment's text.
  \<^item> The object \<^verbatim>\<open>counts\<close> that \<^verbatim>\<open>fetchCounts\<close> builds is the map of its own properties,
    read and written through \<^verbatim>\<open>Object.prototype\<close> as JavaScript does. The \<^verbatim>\<open>counts\<close> that
    the renderer is given is the specification's mapping from dates to counts; the keys it
    reads, dates of the year, name no inherited member.
\<close>

subsection \<open>Leap years and colours\<close>

text \<open>
  \<^verbatim>\<open>year % 4 === 0\<close>: the remainder of JavaScript takes the sign of the dividend, which
  is \<open>smod\<close> on \<open>int\<close>.
\<close>

definition isLeapYear :: "int \<Rightarrow> bool" where
  "isLeapYear year \<longleftrightarrow>
     (year smod 4 = 0 \<and> year smod 100 \<noteq> 0) \<or> year smod 400 = 0"

definition colors :: "string list" where
  "colors = [''#ebedf0'', ''#c6e48b'', ''#7bc96f'', ''#239a3b'', ''#196127'']"

definition getColorByCount :: "nat \<Rightarrow> string" where
  "getColorByCount count =
     (if count = 0 then colors ! 0
      else if count = 1 then colors ! 1
      else if count \<le> 3 then colors ! 2
      else if count \<le> 6 then colors ! 3
      else colors ! 4)"

text \<open>
  The palette runs from the lightest colour to the darkest; the bucket of a colour is its
  position in the palette.
\<close>

fun position :: "'a \<Rightarrow> 'a list \<Rightarrow> nat" where
  "position x [] = 0"
| "position x (y # ys) = (if x = y then 0 else Suc (position x ys))"

definition bucket :: "nat \<Rightarrow> nat" where
  "bucket count = position (getColorByCount count) colors"

subsection \<open>The built-in \<^verbatim>\<open>Date\<close>\<close>

text \<open>
  \<^verbatim>\<open>new Date(year, month, 1).getDay()\<close> is library code of the language; it is
  embedded from its definition in ECMA-262 (section 21.4.1, and the constructor in
  21.4.2.1), for integer arguments. A time value is a number of milliseconds since
  1 January 1970, or \<^verbatim>\<open>NaN\<close>.

  The constructor reads its arguments as local time and \<^verbatim>\<open>getDay\<close> answers in local
  time, so the offset of the time zone cancels (where a clock change skips the local
  midnight, the date falls an hour later on the same day); the embedding takes local time
  to be UTC. The range check of \<open>TimeClip\<close> is made on the UTC value: the range ends on
  20 April -271821 and on 13 September 275760, more than a day from the first day of any
  month, so the offset cannot change its outcome.
\<close>

definition msPerDay :: int where
  "msPerDay = 86400000"

definition Day :: "int \<Rightarrow> int" where
  "Day t = t div msPerDay"

definition WeekDay :: "int \<Rightarrow> int" where
  "WeekDay t = (Day t + 4) mod 7"

definition DaysInYear :: "int \<Rightarrow> int" where
  "DaysInYear y =
     (if y mod 4 \<noteq> 0 then 365
      else if y mod 100 \<noteq> 0 then 366
      else if y mod 400 \<noteq> 0 then 365
      else 366)"

definition DayFromYear :: "int \<Rightarrow> int" where
  "DayFromYear y =
     365 * (y - 1970) + (y - 1969) div 4 - (y - 1901) div 100 + (y - 1601) div 400"

text \<open>
  The day within the year on which month \<open>mn\<close> begins, from the table of
  \<^verbatim>\<open>MonthFromTime\<close>; \<open>leap\<close> is 1 in a leap year and 0 otherwise.
\<close>

definition MonthStart :: "int \<Rightarrow> int \<Rightarrow> int" where
  "MonthStart mn leap =
     (if mn = 0 then 0
      else if mn = 1 then 31
      else [59, 90, 120, 151, 181, 212, 243, 273, 304, 334] ! nat (mn - 2) + leap)"

text \<open>
  \<^verbatim>\<open>MakeDay\<close> finds the day on which the month begins (the time value \<open>t\<close> with
  \<^verbatim>\<open>YearFromTime(t) = ym\<close>, \<^verbatim>\<open>MonthFromTime(t) = mn\<close> and \<^verbatim>\<open>DateFromTime(t) = 1\<close>) and
  adds \<open>date - 1\<close>.
\<close>

definition MakeDay :: "int \<Rightarrow> int \<Rightarrow> int \<Rightarrow> int" where
  "MakeDay year month date =
     (let ym = year + month div 12;
          mn = month mod 12;
          leap = (if DaysInYear ym = 366 then 1 else 0)
      in DayFromYear ym + MonthStart mn leap + date - 1)"

definition MakeDate :: "int \<Rightarrow> int \<Rightarrow> int" where
  "MakeDate day time = day * msPerDay + time"

definition TimeClip :: "int \<Rightarrow> int option" where
  "TimeClip time = (if \<bar>time\<bar> > 8640000000000000 then None else Some time)"

text \<open>A year from 0 to 99 given to the constructor means a year of the 20th century.\<close>

definition MakeFullYear :: "int \<Rightarrow> int" where
  "MakeFullYear year = (if 0 \<le> year \<and> year \<le> 99 then 1900 + year else year)"

definition new_Date :: "int \<Rightarrow> int \<Rightarrow> int \<Rightarrow> int option" where
  "new_Date year month date =
     TimeClip (MakeDate (MakeDay (MakeFullYear year) month date) 0)"

definition getDay :: "int option \<Rightarrow> int option" where
  "getDay tv = map_option WeekDay tv"

subsection \<open>The Gregorian calendar, for reference\<close>

text \<open>
  The calendar as the specification words it: a year is a leap year when it is divisible
  by 4 and (not divisible by 100, or divisible by 400); the weekday moves on by one with
  every day; and 1 January 2000 was a Saturday. The days between 1 January 2000 and the
  first day of a month are counted year by year and month by month.
\<close>

definition gregorian_leap :: "int \<Rightarrow> bool" where
  "gregorian_leap y \<longleftrightarrow> 4 dvd y \<and> (\<not> 100 dvd y \<or> 400 dvd y)"

definition gregorian_year_length :: "int \<Rightarrow> int" where
  "gregorian_year_length y = (if gregorian_leap y then 366 else 365)"

definition gregorian_month_lengths :: "int \<Rightarrow> int list" where
  "gregorian_month_lengths y =
     [31, if gregorian_leap y then 29 else 28, 31, 30, 31, 30, 31, 31, 30, 31, 30, 31]"

definition days_since_2000 :: "int \<Rightarrow> nat \<Rightarrow> int" where
  "days_since_2000 y m =
     (if 2000 \<le> y then sum_list (map gregorian_year_length [2000..y - 1])
      else - sum_list (map gregorian_year_length [y..1999]))
     + sum_list (take m (gregorian_month_lengths y))"

definition gregorian_weekday :: "int \<Rightarrow> nat \<Rightarrow> int" where
  "gregorian_weekday y m = (6 + days_since_2000 y m) mod 7"

subsection \<open>The renderer\<close>

datatype element =
    SvgOpen int int
  | TextEl int int int string string string
  | RectEl int int int int int string
  | SvgClose

text \<open>\<^verbatim>\<open>String(n)\<close> for an integer \<open>n\<close> of fewer than 22 digits, and \<^verbatim>\<open>padStart\<close>.\<close>

fun decimal :: "nat \<Rightarrow> string" where
  "decimal n =
     (if n < 10 then [''0123456789'' ! n]
      else decimal (n div 10) @ [''0123456789'' ! (n mod 10)])"

definition String_of :: "int \<Rightarrow> string" where
  "String_of n = (if n < 0 then ''-'' @ decimal (nat (- n)) else decimal (nat n))"

definition padStart :: "nat \<Rightarrow> char \<Rightarrow> string \<Rightarrow> string" where
  "padStart n c s = replicate (n - length s) c @ s"

definition markup :: "element \<Rightarrow> string" where
  \<open>markup e =
     (case e of
        SvgOpen w h \<Rightarrow>
          ''<svg width="'' @ String_of w @ ''" height="'' @ String_of h
          @ ''" xmlns="http://www.w3.org/2000/svg" style="background:#fff">''
      | TextEl x y fs fill anchor content \<Rightarrow>
          ''<text x="'' @ String_of x @ ''" y="'' @ String_of y
          @ ''" font-size="'' @ String_of fs @ ''" fill="'' @ fill
          @ ''" text-anchor="'' @ anchor @ ''">'' @ content @ ''</text>''
      | RectEl x y w h r fill \<Rightarrow>
          ''<rect x="'' @ String_of x @ ''" y="'' @ String_of y
          @ ''" width="'' @ String_of w @ ''" height="'' @ String_of h
          @ ''" rx="'' @ String_of r @ ''" fill="'' @ fill @ ''"/>''
      | SvgClose \<Rightarrow> ''</svg>'')\<close>

text \<open>
  A counting loop \<^verbatim>\<open>for (let i = start; i < bound; i++) body\<close> over a state. The start
  and the bound may be \<^verbatim>\<open>NaN\<close>; a comparison with \<^verbatim>\<open>NaN\<close> is false, so the loop then
  does nothing.
\<close>

function for_lt :: "int option \<Rightarrow> int option \<Rightarrow> (int \<Rightarrow> 's \<Rightarrow> 's) \<Rightarrow> 's \<Rightarrow> 's" where
  "for_lt (Some i) (Some n) body s =
     (if i < n then for_lt (Some (i + 1)) (Some n) body (body i s) else s)"
| "for_lt None n body s = s"
| "for_lt (Some i) None body s = s"
  by pat_completeness auto
termination
  by (relation "measure (\<lambda>(i, n, body, s). nat (the n - the i))") auto

definition cellSize :: int where "cellSize = 16"
definition spacing :: int where "spacing = 4"
definition colWidth :: int where "colWidth = cellSize + spacing"
definition rowHeight :: int where "rowHeight = cellSize + spacing"
definition leftMargin :: int where "leftMargin = 60"
definition topMargin :: int where "topMargin = 30"
definition totalColumns :: int where "totalColumns = 12 * 5"
definition svgWidth :: int where "svgWidth = leftMargin + totalColumns * colWidth"
definition svgHeight :: int where "svgHeight = topMargin + 7 * rowHeight"

definition months :: "string list" where
  "months = [''Jan'', ''Feb'', ''Mar'', ''Apr'', ''May'', ''Jun'',
             ''Jul'', ''Aug'', ''Sep'', ''Oct'', ''Nov'', ''Dec'']"

definition weekdays :: "string list" where
  "weekdays = [''S'', ''M'', ''T'', ''W'', ''T'', ''F'', ''S'']"

definition daysInMonth :: "int \<Rightarrow> int list" where
  "daysInMonth year =
     [31, if isLeapYear year then 29 else 28, 31, 30, 31, 30, 31, 31, 30, 31, 30, 31]"

record render_state =
  svg :: "element list"
  globalColIndex :: int

definition emit :: "element \<Rightarrow> render_state \<Rightarrow> render_state" where
  "emit e st = st\<lparr>svg := svg st @ [e]\<rparr>"

text \<open>The body of the loop over \<^verbatim>\<open>w\<close>: one weekday label. \<^verbatim>\<open>cellSize / 2\<close> is exact.\<close>

definition label_body :: "int \<Rightarrow> render_state \<Rightarrow> render_state" where
  "label_body w st =
     (let y = topMargin + w * rowHeight + cellSize div 2 + 3
      in emit (TextEl 10 y 10 ''#999'' ''start'' (weekdays ! nat w)) st)"

definition dateStr_of :: "int \<Rightarrow> int \<Rightarrow> int \<Rightarrow> string" where
  "dateStr_of year month dayOfMonth =
     String_of year @ ''-'' @ padStart 2 CHR ''0'' (String_of (month + 1))
     @ ''-'' @ padStart 2 CHR ''0'' (String_of dayOfMonth)"

text \<open>\<^verbatim>\<open>counts[dateStr] || 0\<close>.\<close>

definition count_of :: "(string \<rightharpoonup> nat) \<Rightarrow> string \<Rightarrow> nat" where
  "count_of counts dateStr = (case counts dateStr of None \<Rightarrow> 0 | Some n \<Rightarrow> n)"

text \<open>
  The body of the loop over \<^verbatim>\<open>weekday\<close>. \<open>firstDayOfWeek\<close> may be \<^verbatim>\<open>NaN\<close>, and then so
  is \<open>dayOfMonth\<close>, and the test for a day of the month is false.
\<close>

definition weekday_body ::
  "(string \<rightharpoonup> nat) \<Rightarrow> int \<Rightarrow> int \<Rightarrow> int option \<Rightarrow> int \<Rightarrow> int \<Rightarrow> int
     \<Rightarrow> render_state \<Rightarrow> render_state" where
  "weekday_body counts year month firstDayOfWeek totalDays week weekday st =
     (let dayOfMonth = map_option (\<lambda>f. week * 7 + weekday - f + 1) firstDayOfWeek;
          x = leftMargin + globalColIndex st * colWidth;
          y = topMargin + weekday * rowHeight
      in case dayOfMonth of
           None \<Rightarrow> st
         | Some d \<Rightarrow>
             if d \<ge> 1 \<and> d \<le> totalDays then
               let dateStr = dateStr_of year month d;
                   count = count_of counts dateStr;
                   color = getColorByCount count
               in emit (RectEl x y cellSize cellSize 2 color) st
             else st)"

definition week_body ::
  "(string \<rightharpoonup> nat) \<Rightarrow> int \<Rightarrow> int \<Rightarrow> int option \<Rightarrow> int \<Rightarrow> int
     \<Rightarrow> render_state \<Rightarrow> render_state" where
  "week_body counts year month firstDayOfWeek totalDays week st =
     (let st' = for_lt (Some 0) (Some 7)
                  (weekday_body counts year month firstDayOfWeek totalDays week) st
      in st'\<lparr>globalColIndex := globalColIndex st' + 1\<rparr>)"

text \<open>
  \<^verbatim>\<open>Math.ceil((firstDayOfWeek + totalDays) / 7)\<close> and \<^verbatim>\<open>Math.min(weeksNeeded, 5)\<close>; both
  are \<^verbatim>\<open>NaN\<close> when \<open>firstDayOfWeek\<close> is. The quotient of two small integers by a
  double division is near enough to the exact quotient for its ceiling to be exact.
\<close>

definition weeksNeeded_of :: "int option \<Rightarrow> int \<Rightarrow> int option" where
  "weeksNeeded_of firstDayOfWeek totalDays =
     map_option (\<lambda>f. \<lceil>(of_int (f + totalDays) :: rat) / 7\<rceil>) firstDayOfWeek"

definition actualWeeks_of :: "int option \<Rightarrow> int option" where
  "actualWeeks_of weeksNeeded = map_option (\<lambda>w. min w 5) weeksNeeded"

text \<open>The body of the loop over \<^verbatim>\<open>month\<close>. \<^verbatim>\<open>actualWeeks > 0\<close> is false for \<^verbatim>\<open>NaN\<close>.\<close>

definition month_body ::
  "(string \<rightharpoonup> nat) \<Rightarrow> int \<Rightarrow> int \<Rightarrow> render_state \<Rightarrow> render_state" where
  "month_body counts year month st =
     (let firstDayOfWeek = getDay (new_Date year month 1);
          totalDays = daysInMonth year ! nat month;
          weeksNeeded = weeksNeeded_of firstDayOfWeek totalDays;
          actualWeeks = actualWeeks_of weeksNeeded;
          st1 = (case actualWeeks of
                   None \<Rightarrow> st
                 | Some a \<Rightarrow>
                     if a > 0 then
                       let midCol = globalColIndex st + a div 2;
                           x = leftMargin + midCol * colWidth + cellSize div 2
                       in emit (TextEl x 16 11 ''#586069'' ''middle'' (months ! nat month)) st
                     else st);
          st2 = for_lt (Some 0) actualWeeks
                  (week_body counts year month firstDayOfWeek totalDays) st1
      in for_lt actualWeeks (Some 5)
           (\<lambda>pad s. s\<lparr>globalColIndex := globalColIndex s + 1\<rparr>) st2)"

text \<open>
  The state when \<^verbatim>\<open>generateHeatmapSVG\<close> returns, and the string it returns.
\<close>

definition render :: "(string \<rightharpoonup> nat) \<Rightarrow> int \<Rightarrow> render_state" where
  "render counts year =
     (let st0 = \<lparr>svg = [SvgOpen svgWidth svgHeight], globalColIndex = 0\<rparr>;
          st1 = for_lt (Some 0) (Some 7) label_body st0;
          st2 = for_lt (Some 0) (Some 12) (month_body counts year) st1
      in emit SvgClose st2)"

definition generateHeatmapSVG :: "(string \<rightharpoonup> nat) \<Rightarrow> int \<Rightarrow> string" where
  "generateHeatmapSVG counts year = concat (map markup (svg (render counts year)))"

text \<open>The rectangle of the page that \<^verbatim>\<open>main\<close> has the browser capture.\<close>

record clip_rect =
  clip_x :: int
  clip_y :: int
  clip_width :: int
  clip_height :: int

definition screenshot_clip :: clip_rect where
  "screenshot_clip = \<lparr>clip_x = 0, clip_y = 0, clip_width = 1200, clip_height = 180\<rparr>"

text \<open>For reference: the points of the page that lie inside a clip rectangle.\<close>

definition captured :: "clip_rect \<Rightarrow> int \<Rightarrow> int \<Rightarrow> bool" where
  "captured c x y \<longleftrightarrow>
     clip_x c \<le> x \<and> x < clip_x c + clip_width c \<and> clip_y c \<le> y \<and> y < clip_y c + clip_height c"

text \<open>
  The day cells that one pass of the loop over \<^verbatim>\<open>month\<close> appends, when it starts at
  column \<open>col\<close>.
\<close>

definition is_rect :: "element \<Rightarrow> bool" where
  "is_rect e = (case e of RectEl x y w h r fill \<Rightarrow> True | _ \<Rightarrow> False)"

definition month_cells :: "(string \<rightharpoonup> nat) \<Rightarrow> int \<Rightarrow> int \<Rightarrow> int \<Rightarrow> element list" where
  "month_cells counts year month col =
     filter is_rect (svg (month_body counts year month \<lparr>svg = [], globalColIndex = col\<rparr>))"

text \<open>
  For reference: the cell of day \<open>d\<close> of a month whose first day falls on weekday \<open>f\<close> and
  whose first column is \<open>col\<close>. Day \<open>d\<close> is in week \<open>(f + d - 1) div 7\<close> of the month, on
  row \<open>(f + d - 1) mod 7\<close>.
\<close>

definition cell_of_day ::
  "(string \<rightharpoonup> nat) \<Rightarrow> int \<Rightarrow> int \<Rightarrow> int \<Rightarrow> int \<Rightarrow> int \<Rightarrow> element" where
  "cell_of_day counts year month f col d =
     RectEl (leftMargin + (col + (f + d - 1) div 7) * colWidth)
            (topMargin + ((f + d - 1) mod 7) * rowHeight)
            cellSize cellSize 2
            (getColorByCount (count_of counts (dateStr_of year month d)))"

text \<open>
  For reference: the calendar of a year as the specification describes it. After the
  header come the seven weekday labels; then every month, in the five columns from column
  \<open>5 * month\<close> on, has its label over the third of them and the cells of its days from 1
  to \<open>min(length of the month, 5 * 7 - weekday of its first day)\<close>.
\<close>

definition weekday_label :: "int \<Rightarrow> element" where
  "weekday_label w =
     TextEl 10 (topMargin + w * rowHeight + cellSize div 2 + 3) 10 ''#999'' ''start''
       (weekdays ! nat w)"

definition month_label :: "int \<Rightarrow> element" where
  "month_label month =
     TextEl (leftMargin + (5 * month + 2) * colWidth + cellSize div 2) 16 11
       ''#586069'' ''middle'' (months ! nat month)"

definition calendar_month :: "(string \<rightharpoonup> nat) \<Rightarrow> int \<Rightarrow> int \<Rightarrow> element list" where
  "calendar_month counts year month =
     (let f = gregorian_weekday year (nat month);
          n = gregorian_month_lengths year ! nat month
      in month_label month
         # map (cell_of_day counts year month f (5 * month)) [1..min n (5 * 7 - f)])"

definition calendar :: "(string \<rightharpoonup> nat) \<Rightarrow> int \<Rightarrow> element list" where
  "calendar counts year =
     SvgOpen svgWidth svgHeight # map weekday_label [0..6]
     @ concat (map (calendar_month counts year) [0..11]) @ [SvgClose]"

text \<open>
  For reference: the red, green and blue channels of a colour \<^verbatim>\<open>#rrggbb\<close>. A colour is
  no lighter than another when none of its channels is greater.
\<close>

definition hex_digit :: "char \<Rightarrow> nat" where
  "hex_digit c = position c ''0123456789abcdef''"

definition channel :: "nat \<Rightarrow> string \<Rightarrow> nat" where
  "channel i c = 16 * hex_digit (c ! (1 + 2 * i)) + hex_digit (c ! (2 + 2 * i))"

definition no_lighter :: "string \<Rightarrow> string \<Rightarrow> bool" where
  "no_lighter c c' \<longleftrightarrow>
     channel 0 c \<le> channel 0 c' \<and> channel 1 c \<le> channel 1 c' \<and> channel 2 c \<le> channel 2 c'"

subsection \<open>The count aggregator\<close>

text \<open>
  The loop of \<^verbatim>\<open>fetchCounts\<close> over \<^verbatim>\<open>data.results\<close>, the records of the parsed response
  (the request itself is the network's affair). A record is a value of JSON; \<open>Undefined\<close>
  is what reading an absent property gives.
\<close>

datatype jsval =
    Undefined
  | Null
  | Bool bool
  | Num rat
  | Str string
  | Arr "jsval list"
  | Obj "(string \<times> jsval) list"

datatype error = TypeError

text \<open>
  \<^verbatim>\<open>v.k\<close> and \<^verbatim>\<open>v?.k\<close>, for the keys the loop reads: \<^verbatim>\<open>properties\<close>, the name of the date
  property, \<^verbatim>\<open>date\<close> and \<^verbatim>\<open>start\<close>. An object is the list of its properties, each key
  once; a string, an array, a number or a boolean has none of these four properties.
  Reading a property of \<^verbatim>\<open>null\<close> or \<^verbatim>\<open>undefined\<close> throws; with \<^verbatim>\<open>?.\<close> it gives
  \<^verbatim>\<open>undefined\<close>.
\<close>

fun get :: "jsval \<Rightarrow> string \<Rightarrow> error + jsval" where
  "get Undefined k = Inl TypeError"
| "get Null k = Inl TypeError"
| "get (Obj kvs) k = Inr (case map_of kvs k of None \<Rightarrow> Undefined | Some v \<Rightarrow> v)"
| "get v k = Inr Undefined"

fun opt_get :: "jsval \<Rightarrow> string \<Rightarrow> jsval" where
  "opt_get Undefined k = Undefined"
| "opt_get Null k = Undefined"
| "opt_get (Obj kvs) k = (case map_of kvs k of None \<Rightarrow> Undefined | Some v \<Rightarrow> v)"
| "opt_get v k = Undefined"

fun truthy :: "jsval \<Rightarrow> bool" where
  "truthy Undefined = False"
| "truthy Null = False"
| "truthy (Bool b) = b"
| "truthy (Num r) = (r \<noteq> 0)"
| "truthy (Str s) = (s \<noteq> [])"
| "truthy v = True"

text \<open>
  The name of the date property, four Chinese characters, in UTF-8. (No byte of a
  character beyond ASCII is the byte of \<^verbatim>\<open>T\<close>, so splitting the bytes at \<^verbatim>\<open>T\<close> splits
  the string where JavaScript does.)
\<close>

definition date_property :: string where
  "date_property =
     [CHR 0xE6, CHR 0x96, CHR 0xB0, CHR 0xE9, CHR 0x97, CHR 0xBB,
      CHR 0xE6, CHR 0x97, CHR 0xA5, CHR 0xE6, CHR 0x9C, CHR 0x9F]"

text \<open>\<^verbatim>\<open>s.split(c)\<close> for a separator of one character.\<close>

fun split :: "char \<Rightarrow> string \<Rightarrow> string list" where
  "split c [] = [[]]"
| "split c (x # xs) =
     (if x = c then [] # split c xs
      else (case split c xs of [] \<Rightarrow> [[x]] | p # ps \<Rightarrow> (x # p) # ps))"

text \<open>
  The object \<^verbatim>\<open>counts\<close> starts as \<^verbatim>\<open>{}\<close>. It has the properties that the loop gives it,
  a map from keys to values, and it inherits the members of \<^verbatim>\<open>Object.prototype\<close>. A value
  that the loop stores is a number or, under a key that names an inherited member, a
  string. (The counts stay far below \<open>2^53\<close>, where adding 1 is exact.)
\<close>

datatype count_value = Number nat | Text string

text \<open>
  The members of \<^verbatim>\<open>Object.prototype\<close> in V8, the engine of the script, each with the
  string that \<^verbatim>\<open>+\<close> converts it to: a built-in function gives its native source text, and
  \<^verbatim>\<open>__proto__\<close> reads as \<^verbatim>\<open>Object.prototype\<close> itself, which gives \<^verbatim>\<open>[object Object]\<close>.
\<close>

definition native_function :: "string \<Rightarrow> string" where
  "native_function name = ''function '' @ name @ ''() { [native code] }''"

definition Object_prototype :: "(string \<times> string) list" where
  "Object_prototype =
     [(''constructor'', native_function ''Object''),
      (''__defineGetter__'', native_function ''__defineGetter__''),
      (''__defineSetter__'', native_function ''__defineSetter__''),
      (''hasOwnProperty'', native_function ''hasOwnProperty''),
      (''__lookupGetter__'', native_function ''__lookupGetter__''),
      (''__lookupSetter__'', native_function ''__lookupSetter__''),
      (''isPrototypeOf'', native_function ''isPrototypeOf''),
      (''propertyIsEnumerable'', native_function ''propertyIsEnumerable''),
      (''toString'', native_function ''toString''),
      (''valueOf'', native_function ''valueOf''),
      (''__proto__'', ''[object Object]''),
      (''toLocaleString'', native_function ''toLocaleString'')]"

text \<open>
  \<^verbatim>\<open>counts[dateStr]\<close>: the property of \<^verbatim>\<open>counts\<close> itself if it has one, else the inherited
  member (an object, kept here as its string), else \<^verbatim>\<open>undefined\<close>.
\<close>

datatype property = Absent | Own count_value | Inherited string

definition read_property :: "(string \<rightharpoonup> count_value) \<Rightarrow> string \<Rightarrow> property" where
  "read_property counts k =
     (case counts k of
        Some v \<Rightarrow> Own v
      | None \<Rightarrow> (case map_of Object_prototype k of
                   Some text \<Rightarrow> Inherited text
                 | None \<Rightarrow> Absent))"

text \<open>
  \<^verbatim>\<open>(p || 0) + 1\<close>: \<^verbatim>\<open>undefined\<close>, 0 and the empty string are falsy and give \<open>0 + 1\<close>; a
  number gives the next number; a string or an object is truthy, and \<^verbatim>\<open>+\<close> appends
  \<^verbatim>\<open>1\<close> to its string.
\<close>

fun or_zero_plus_one :: "property \<Rightarrow> count_value" where
  "or_zero_plus_one Absent = Number 1"
| "or_zero_plus_one (Own (Number n)) = Number (n + 1)"
| "or_zero_plus_one (Own (Text s)) = (if s = [] then Number 1 else Text (s @ ''1''))"
| "or_zero_plus_one (Inherited text) = Text (text @ ''1'')"

text \<open>
  \<^verbatim>\<open>counts[dateStr] = v\<close> sets a property of \<^verbatim>\<open>counts\<close> itself, but for the key
  \<^verbatim>\<open>__proto__\<close>: that is an accessor of \<^verbatim>\<open>Object.prototype\<close>, whose setter ignores a value
  that is not an object.
\<close>

definition assign_property ::
  "(string \<rightharpoonup> count_value) \<Rightarrow> string \<Rightarrow> count_value \<Rightarrow> (string \<rightharpoonup> count_value)" where
  "assign_property counts k v =
     (if counts k = None \<and> k = ''__proto__'' then counts else counts(k \<mapsto> v))"

text \<open>
  The body of the loop over the records. \<^verbatim>\<open>dateProp.start.split\<close> is a function only
  when \<^verbatim>\<open>start\<close> is a string; calling it on any other truthy value throws.
\<close>

definition record_step ::
  "(string \<rightharpoonup> count_value) \<Rightarrow> jsval \<Rightarrow> error + (string \<rightharpoonup> count_value)" where
  "record_step counts record =
     (case get record ''properties'' of
        Inl e \<Rightarrow> Inl e
      | Inr props \<Rightarrow>
          let dateProp = opt_get (opt_get props date_property) ''date'' in
          if truthy (opt_get dateProp ''start'') then
            (case get dateProp ''start'' of
               Inl e \<Rightarrow> Inl e
             | Inr (Str s) \<Rightarrow>
                 let dateStr = hd (split CHR ''T'' s)
                 in Inr (assign_property counts dateStr
                          (or_zero_plus_one (read_property counts dateStr)))
             | Inr v \<Rightarrow> Inl TypeError)
          else Inr counts)"

fun count_loop ::
  "(string \<rightharpoonup> count_value) \<Rightarrow> jsval list \<Rightarrow> error + (string \<rightharpoonup> count_value)" where
  "count_loop counts [] = Inr counts"
| "count_loop counts (record # records) =
     (case record_step counts record of
        Inl e \<Rightarrow> Inl e
      | Inr counts' \<Rightarrow> count_loop counts' records)"

definition fetchCounts :: "jsval list \<Rightarrow> error + (string \<rightharpoonup> count_value)" where
  "fetchCounts results = count_loop Map.empty results"

text \<open>
  For reference: the date a record is counted under, if it is counted. A record counts
  when its start value is a string that is not empty.
\<close>

definition start_of :: "jsval \<Rightarrow> jsval" where
  "start_of record =
     opt_get (opt_get (opt_get (opt_get record ''properties'') date_property) ''date'') ''start''"

definition date_key :: "jsval \<Rightarrow> string option" where
  "date_key record =
     (case start_of record of
        Str s \<Rightarrow> if s = [] then None else Some (takeWhile (\<lambda>c. c \<noteq> CHR ''T'') s)
      | _ \<Rightarrow> None)"

text \<open>
  For reference: a key is plain when it does not name a member of \<^verbatim>\<open>Object.prototype\<close>.
  The date part of an ISO-8601 string begins with a digit (or a sign), so it is plain.
\<close>

definition plain_key :: "string \<Rightarrow> bool" where
  "plain_key k \<longleftrightarrow> map_of Object_prototype k = None"

text \<open>
  For reference: a record shaped as the database returns it, a page whose date property
  has the given start value; and a page that has no date property.
\<close>

definition record_with_start :: "jsval \<Rightarrow> jsval" where
  "record_with_start v =
     Obj [(''object'', Str ''page''),
          (''properties'',
             Obj [(date_property,
                     Obj [(''type'', Str ''date''),
                          (''date'', Obj [(''start'', v), (''end'', Null)])])])]"

definition record_without_date :: jsval where
  "record_without_date = Obj [(''object'', Str ''page''), (''properties'', Obj [])]"

text \<open>
  A record list is well formed when every record is an object whose start value, if it
  has one, is \<^verbatim>\<open>null\<close> or a string.
\<close>

definition well_formed :: "jsval \<Rightarrow> bool" where
  "well_formed record \<longleftrightarrow>
     (case record of Obj kvs \<Rightarrow> True | _ \<Rightarrow> False) \<and>
     (case start_of record of Undefined \<Rightarrow> True | Null \<Rightarrow> True | Str s \<Rightarrow> True | _ \<Rightarrow> False)"

subsection \<open>Leap years and colours: results\<close>

lemma smod_eq_0_iff_dvd: "(k::int) smod l = 0 \<longleftrightarrow> l dvd k"
  by (simp add: signed_modulo_int_def sgn_if dvd_eq_mod_eq_0[symmetric])

lemma bucket_eq:
  "bucket count =
     (if count = 0 then 0 else if count = 1 then 1 else if count \<le> 3 then 2
      else if count \<le> 6 then 3 else 4)"
  by (simp add: bucket_def getColorByCount_def colors_def)

lemma channels:
  "map (\<lambda>c. (channel 0 c, channel 1 c, channel 2 c)) colors =
     [(235, 237, 240), (198, 228, 139), (123, 201, 111), (35, 154, 59), (25, 97, 39)]"
  by (simp add: colors_def channel_def hex_digit_def)

lemma no_lighter_colors:
  assumes "i \<le> j" "j < 5"
  shows "no_lighter (colors ! j) (colors ! i)"
proof -
  have ch: "(channel 0 (colors ! k), channel 1 (colors ! k), channel 2 (colors ! k)) =
          [(235, 237, 240), (198, 228, 139), (123, 201, 111), (35, 154, 59), (25, 97, 39)] ! k"
    if "k < 5" for k
    using that nth_map [of k colors "\<lambda>c. (channel 0 c, channel 1 c, channel 2 c)"]
    unfolding channels by (simp add: colors_def)
  from assms have i: "i < 5" by simp
  from assms have "j = 0 \<or> j = 1 \<or> j = 2 \<or> j = 3 \<or> j = 4" by presburger
  moreover from i have "i = 0 \<or> i = 1 \<or> i = 2 \<or> i = 3 \<or> i = 4" by presburger
  ultimately show ?thesis
    using ch [OF i] ch [OF assms(2)] assms(1)
    by (elim disjE) (simp_all add: no_lighter_def)
qed

lemma color_of_bucket: "getColorByCount count = colors ! bucket count"
  unfolding bucket_eq by (simp add: getColorByCount_def)

lemma bucket_less: "bucket count < 5"
  by (simp add: bucket_eq)

lemma bucket_mono: "m \<le> n \<Longrightarrow> bucket m \<le> bucket n"
  by (simp add: bucket_eq)

text \<open>
  Claim C5. \<open>getColorByCount\<close> is defined for every count: 0 gets the lightest colour of
  the palette, 1 the next, 2 and 3 the next, 4 to 6 the next, and every count from 7 on
  the darkest. So it is monotonic: a higher count gets a bucket that is no lower, and a
  colour that is no lighter in any channel.
\<close>

theorem getColorByCount_buckets:
  "getColorByCount count =
     (if count = 0 then ''#ebedf0''
      else if count = 1 then ''#c6e48b''
      else if 2 \<le> count \<and> count \<le> 3 then ''#7bc96f''
      else if 4 \<le> count \<and> count \<le> 6 then ''#239a3b''
      else ''#196127'')
   \<and> getColorByCount count = colors ! bucket count \<and> bucket count < 5
   \<and> (m \<le> n \<longrightarrow>
        bucket m \<le> bucket n \<and> no_lighter (getColorByCount n) (getColorByCount m))"
proof (intro conjI impI)
  show "getColorByCount count =
     (if count = 0 then ''#ebedf0''
      else if count = 1 then ''#c6e48b''
      else if 2 \<le> count \<and> count \<le> 3 then ''#7bc96f''
      else if 4 \<le> count \<and> count \<le> 6 then ''#239a3b''
      else ''#196127'')"
    by (simp add: getColorByCount_def colors_def)
  show "getColorByCount count = colors ! bucket count"
    by (rule color_of_bucket)
  show "bucket count < 5"
    by (rule bucket_less)
next
  assume "m \<le> n"
  then show "bucket m \<le> bucket n"
    by (rule bucket_mono)
  from \<open>m \<le> n\<close> have "no_lighter (colors ! bucket n) (colors ! bucket m)"
    by (intro no_lighter_colors bucket_mono bucket_less)
  then show "no_lighter (getColorByCount n) (getColorByCount m)"
    by (simp only: color_of_bucket)
qed

theorem getColorByCount_buckets_witness:
  "map bucket [0, 1, 2, 3, 4, 5, 6, 7, 1000] = [0, 1, 2, 2, 3, 3, 3, 4, 4]
   \<and> (3::nat) \<le> 7 \<and> bucket 3 \<le> bucket 7
   \<and> no_lighter (getColorByCount 7) (getColorByCount 3)
   \<and> getColorByCount 1000 = ''#196127''"
  using getColorByCount_buckets [of 1000 3 7] by (simp add: bucket_eq)

text \<open>
  Claim C8. \<open>isLeapYear year\<close> holds exactly when the year is divisible by 4 and (not
  divisible by 100, or divisible by 400): not for 1900, for 2000, for 2024, not for 2023.
  February, the second entry of \<open>daysInMonth\<close>, has 29 days in a leap year and 28
  otherwise.
\<close>

theorem isLeapYear_gregorian:
  "(isLeapYear year \<longleftrightarrow> 4 dvd year \<and> (\<not> 100 dvd year \<or> 400 dvd year))
   \<and> \<not> isLeapYear 1900 \<and> isLeapYear 2000 \<and> isLeapYear 2024 \<and> \<not> isLeapYear 2023
   \<and> daysInMonth year ! 1 = (if isLeapYear year then 29 else 28)"
proof -
  have rule: "isLeapYear y \<longleftrightarrow> 4 dvd y \<and> (\<not> 100 dvd y \<or> 400 dvd y)" for y
    using dvd_trans [of 4 400 y] by (auto simp: isLeapYear_def smod_eq_0_iff_dvd)
  have "\<not> isLeapYear 1900" "isLeapYear 2000" "isLeapYear 2024" "\<not> isLeapYear 2023"
    by (simp_all add: rule)
  moreover have "daysInMonth year ! 1 = (if isLeapYear year then 29 else 28)"
    by (simp add: daysInMonth_def)
  ultimately show ?thesis using rule [of year] by blast
qed

theorem isLeapYear_gregorian_witness:
  "isLeapYear (-400) \<and> 400 dvd (-400::int) \<and> daysInMonth (-400) ! 1 = 29
   \<and> \<not> isLeapYear 2100 \<and> daysInMonth 2100 ! 1 = 28"
  using isLeapYear_gregorian [of "-400"] isLeapYear_gregorian [of 2100] by simp

subsection \<open>The loops of the renderer\<close>

declare for_lt.simps [simp del]

lemma for_lt_fold: "for_lt (Some i) (Some n) body s = fold body [i..n - 1] s"
proof (induction "nat (n - i)" arbitrary: i s)
  case 0
  then show ?case by (simp add: for_lt.simps)
next
  case (Suc k)
  then have lt: "i < n" and k: "k = nat (n - (i + 1))" by linarith+
  have "[i..n - 1] = i # [i + 1..n - 1]" using lt by (simp add: upto_rec1)
  with Suc.hyps(1) [OF k] lt show ?case by (simp add: for_lt.simps)
qed

lemma map_shift_upto: "map (\<lambda>x. x + c) [i..j] = [i + c..j + c]"
proof (rule sorted_distinct_set_unique)
  show "sorted (map (\<lambda>x. x + c) [i..j])"
    by (simp add: sorted_wrt_map sorted_wrt_mono_rel [OF _ sorted_wrt_upto])
  show "distinct (map (\<lambda>x. x + c) [i..j])"
    by (simp add: distinct_map inj_on_def)
  show "set (map (\<lambda>x. x + c) [i..j]) = set [i + c..j + c]"
    by (auto simp: image_iff intro!: bexI [of _ "x - c" for x])
qed simp_all

lemma filter_range_upto:
  "filter (\<lambda>d. l \<le> d \<and> d \<le> u) [a..b] = [max l a..min u b]"
proof (rule sorted_distinct_set_unique)
  have "sorted [a..b]" by simp
  then show "sorted (filter (\<lambda>d. l \<le> d \<and> d \<le> u) [a..b])"
    by (rule sorted_wrt_filter)
  show "set (filter (\<lambda>d. l \<le> d \<and> d \<le> u) [a..b]) = set [max l a..min u b]"
    by auto
qed simp_all

lemma fold_cond_emit:
  "fold (\<lambda>i s. if P i then emit (h (globalColIndex s) i) s else s) xs st
     = st\<lparr>svg := svg st @ map (h (globalColIndex st)) (filter P xs)\<rparr>"
  by (induction xs arbitrary: st) (simp_all add: emit_def)

lemma fold_pad:
  "fold (\<lambda>pad s. s\<lparr>globalColIndex := globalColIndex s + 1\<rparr>) xs st
     = st\<lparr>globalColIndex := globalColIndex st + int (length xs)\<rparr>"
  by (induction xs arbitrary: st) simp_all

lemma weekday_body_Some:
  assumes "0 \<le> weekday" "weekday < 7"
  shows "weekday_body counts year month (Some f) tot week weekday st =
     (if 1 \<le> week * 7 + weekday - f + 1 \<and> week * 7 + weekday - f + 1 \<le> tot
      then emit (cell_of_day counts year month f (globalColIndex st - week)
                   (week * 7 + weekday - f + 1)) st
      else st)"
proof -
  have e: "f + (week * 7 + weekday - f + 1) - 1 = weekday + week * 7" by simp
  have d: "(f + (week * 7 + weekday - f + 1) - 1) div 7 = week"
    unfolding e using assms by simp
  have m: "(f + (week * 7 + weekday - f + 1) - 1) mod 7 = weekday"
    unfolding e using assms by simp
  show ?thesis
    unfolding weekday_body_def cell_of_day_def Let_def d m by simp
qed

lemma weekday_loop:
  "for_lt (Some 0) (Some 7) (weekday_body counts year month (Some f) tot week) st =
     st\<lparr>svg := svg st @ map (cell_of_day counts year month f (globalColIndex st - week))
                  (filter (\<lambda>d. 1 \<le> d \<and> d \<le> tot) [week * 7 - f + 1..week * 7 - f + 7])\<rparr>"
proof -
  let ?P = "\<lambda>d. 1 \<le> d \<and> d \<le> tot"
  let ?dd = "\<lambda>wd. week * 7 + wd - f + 1"
  let ?h = "\<lambda>g wd. cell_of_day counts year month f (g - week) (?dd wd)"
  have "fold (weekday_body counts year month (Some f) tot week) [0..6] st
      = fold (\<lambda>wd s. if ?P (?dd wd) then emit (?h (globalColIndex s) wd) s else s) [0..6] st"
  proof (rule fold_cong)
    fix wd assume "wd \<in> set [0..6]"
    then have "0 \<le> wd" "wd < 7" by simp_all
    then show "weekday_body counts year month (Some f) tot week wd
        = (\<lambda>s. if ?P (?dd wd) then emit (?h (globalColIndex s) wd) s else s)"
      by (intro ext) (rule weekday_body_Some)
  qed simp_all
  also have "\<dots> = st\<lparr>svg := svg st @
       map (?h (globalColIndex st)) (filter (\<lambda>wd. ?P (?dd wd)) [0..6])\<rparr>"
    by (rule fold_cond_emit)
  also have "map (?h (globalColIndex st)) (filter (\<lambda>wd. ?P (?dd wd)) [0..6])
      = map (cell_of_day counts year month f (globalColIndex st - week))
          (filter ?P (map ?dd [0..6]))"
    unfolding filter_map map_map comp_def ..
  also have "map ?dd [0..6] = map (\<lambda>x. x + (week * 7 - f + 1)) [0..6]"
    by (rule map_cong) simp_all
  also have "\<dots> = [week * 7 - f + 1..week * 7 - f + 7]"
    unfolding map_shift_upto by (rule arg_cong2 [where f = upto]) simp_all
  finally have "fold (weekday_body counts year month (Some f) tot week) [0..6] st =
     st\<lparr>svg := svg st @ map (cell_of_day counts year month f (globalColIndex st - week))
                  (filter ?P [week * 7 - f + 1..week * 7 - f + 7])\<rparr>" .
  then show ?thesis
    unfolding for_lt_fold by simp
qed

lemma week_body_Some:
  "week_body counts year month (Some f) tot week st =
     st\<lparr>svg := svg st @ map (cell_of_day counts year month f (globalColIndex st - week))
                  (filter (\<lambda>d. 1 \<le> d \<and> d \<le> tot) [week * 7 - f + 1..week * 7 - f + 7]),
        globalColIndex := globalColIndex st + 1\<rparr>"
  by (simp add: week_body_def weekday_loop Let_def)

lemma week_loop:
  "i \<le> j + 1 \<Longrightarrow>
   fold (week_body counts year month (Some f) tot) [i..j] st =
     st\<lparr>svg := svg st @ map (cell_of_day counts year month f (globalColIndex st - i))
                  (filter (\<lambda>d. 1 \<le> d \<and> d \<le> tot) [i * 7 - f + 1..(j + 1) * 7 - f]),
        globalColIndex := globalColIndex st + (j + 1 - i)\<rparr>"
proof (induction "nat (j + 1 - i)" arbitrary: i st)
  case 0
  then have "i = j + 1" by simp
  then show ?case by simp
next
  case (Suc k)
  then have le: "i \<le> j" and k: "k = nat (j + 1 - (i + 1))" and le': "i + 1 \<le> j + 1"
    by linarith+
  let ?st = "week_body counts year month (Some f) tot i st"
  have split: "[i * 7 - f + 1..(j + 1) * 7 - f]
      = [i * 7 - f + 1..i * 7 - f + 7] @ [(i + 1) * 7 - f + 1..(j + 1) * 7 - f]"
    using le upto_split2 [of "i * 7 - f + 1" "i * 7 - f + 7" "(j + 1) * 7 - f"]
    by (simp add: algebra_simps)
  have "fold (week_body counts year month (Some f) tot) [i..j] st
      = fold (week_body counts year month (Some f) tot) [i + 1..j] ?st"
    using le by (simp add: upto_rec1)
  also note Suc.hyps(1) [OF k le', of ?st]
  finally show ?case
    unfolding split by (simp add: week_body_Some)
qed

lemma ceiling_div_7: "\<lceil>(of_int a :: 'a :: floor_ceiling) / 7\<rceil> = (a + 6) div 7"
proof (rule ceiling_unique)
  define z m where "z = (a + 6) div 7" and "m = (a + 6) mod 7"
  have "a + 6 = 7 * z + m" "0 \<le> m" "m < 7" by (simp_all add: z_def m_def)
  then have 1: "7 * z - 7 < a" and 2: "a \<le> 7 * z" by linarith+
  from 1 have "(of_int (7 * z - 7) :: 'a) < of_int a" by (simp only: of_int_less_iff)
  then show "of_int ((a + 6) div 7) - 1 < (of_int a :: 'a) / 7"
    unfolding z_def [symmetric] by (simp add: field_simps)
  from 2 have "(of_int a :: 'a) \<le> of_int (7 * z)" by (simp only: of_int_le_iff)
  then show "(of_int a :: 'a) / 7 \<le> of_int ((a + 6) div 7)"
    unfolding z_def [symmetric] by (simp add: field_simps)
qed

lemma weeksNeeded_Some: "weeksNeeded_of (Some f) tot = Some ((f + tot + 6) div 7)"
  unfolding weeksNeeded_of_def ceiling_div_7 by simp

lemma weeks_bounds:
  fixes f tot :: int
  defines "w \<equiv> (f + tot + 6) div 7"
  shows "f + tot \<le> 7 * w" and "7 * w \<le> f + tot + 6"
proof -
  have "f + tot + 6 = 7 * w + (f + tot + 6) mod 7"
    "0 \<le> (f + tot + 6) mod 7" "(f + tot + 6) mod 7 < 7"
    by (simp_all add: w_def)
  then show "f + tot \<le> 7 * w" and "7 * w \<le> f + tot + 6" by linarith+
qed

lemma getDay_range: "getDay tv = Some f \<Longrightarrow> 0 \<le> f \<and> f \<le> 6"
  by (cases tv) (auto simp: getDay_def WeekDay_def)

lemma upto_0_11: "[0..11] = [0, 1, 2, 3, 4, 5, 6, 7, 8, 9, 10, 11]"
  by (simp add: upto_rec1)

lemma daysInMonth_range:
  assumes "0 \<le> month" "month < 12"
  shows "28 \<le> daysInMonth year ! nat month \<and> daysInMonth year ! nat month \<le> 31"
proof -
  have "\<forall>x \<in> set (daysInMonth year). 28 \<le> x \<and> x \<le> 31"
    by (simp add: daysInMonth_def)
  moreover from assms have "nat month < length (daysInMonth year)"
    by (simp add: daysInMonth_def)
  ultimately show ?thesis using nth_mem by blast
qed

lemma month_body_None:
  "getDay (new_Date year month 1) = None \<Longrightarrow> month_body counts year month st = st"
  by (simp add: month_body_def weeksNeeded_of_def actualWeeks_of_def for_lt.simps)

text \<open>The label of a month, which stands over the third of its five columns.\<close>

lemma month_body_Some:
  assumes f: "getDay (new_Date year month 1) = Some f"
    and tot: "daysInMonth year ! nat month = tot" "28 \<le> tot" "tot \<le> 31"
  shows "month_body counts year month st =
     st\<lparr>svg := svg st
            @ TextEl (leftMargin + (globalColIndex st + 2) * colWidth + cellSize div 2) 16 11
                ''#586069'' ''middle'' (months ! nat month)
            # map (cell_of_day counts year month f (globalColIndex st))
                [1..min tot (35 - f)],
        globalColIndex := globalColIndex st + 5\<rparr>"
proof -
  define a where "a = min ((f + tot + 6) div 7) 5"
  from getDay_range [OF f] have f06: "0 \<le> f" "f \<le> 6" by simp_all
  have wb: "f + tot \<le> 7 * ((f + tot + 6) div 7)" "7 * ((f + tot + 6) div 7) \<le> f + tot + 6"
    by (rule weeks_bounds)+
  from wb f06 tot have a45: "a = 4 \<or> a = 5" unfolding a_def by linarith
  then have a2: "a div 2 = 2" "0 < a" by auto
  from wb f06 tot have days: "min tot (a * 7 - f) = min tot (35 - f)" unfolding a_def by linarith
  have aw: "actualWeeks_of (weeksNeeded_of (Some f) tot) = Some a"
    by (simp add: weeksNeeded_Some actualWeeks_of_def a_def)
  let ?st1 = "emit (TextEl (leftMargin + (globalColIndex st + 2) * colWidth + cellSize div 2)
      16 11 ''#586069'' ''middle'' (months ! nat month)) st"
  have weeks: "for_lt (Some 0) (Some a) (week_body counts year month (Some f) tot) ?st1 =
      ?st1\<lparr>svg := svg ?st1 @ map (cell_of_day counts year month f (globalColIndex st))
                   [1..min tot (35 - f)],
           globalColIndex := globalColIndex st + a\<rparr>"
  proof -
    have "filter (\<lambda>d. 1 \<le> d \<and> d \<le> tot) [0 * 7 - f + 1..(a - 1 + 1) * 7 - f]
        = [1..min tot (35 - f)]"
      unfolding filter_range_upto using f06 days by (simp add: max_def)
    moreover from a2 have "0 \<le> a - 1 + 1" by simp
    note week_loop [OF this, of counts year month f tot ?st1]
    ultimately show ?thesis
      unfolding for_lt_fold by (simp add: emit_def)
  qed
  have pad: "for_lt (Some a) (Some 5) (\<lambda>pad s. s\<lparr>globalColIndex := globalColIndex s + 1\<rparr>) s
      = s\<lparr>globalColIndex := globalColIndex s + (5 - a)\<rparr>" for s :: render_state
    unfolding for_lt_fold fold_pad using a45 by auto
  show ?thesis
    unfolding month_body_def Let_def f tot aw
    by (simp add: a2 weeks pad) (simp add: emit_def)
qed

subsection \<open>The built-in \<^verbatim>\<open>Date\<close> and the calendar\<close>

lemma div_succ:
  fixes x n :: int
  assumes "0 < n"
  shows "(x + 1) div n = x div n + (if n dvd x + 1 then 1 else 0)"
proof -
  define q r where "q = (x + 1) div n" and "r = (x + 1) mod n"
  have x1: "x + 1 = n * q + r" and r: "0 \<le> r" "r < n"
    using assms by (simp_all add: q_def r_def)
  show ?thesis
  proof (cases "r = 0")
    case True
    with x1 have "x = n * (q - 1) + (n - 1)" by (simp add: algebra_simps)
    moreover have "0 \<le> n - 1" "n - 1 < n" using assms by simp_all
    ultimately have "x div n = q - 1" by (rule int_div_pos_eq)
    moreover from True have "n dvd x + 1" by (simp add: r_def dvd_eq_mod_eq_0)
    ultimately show ?thesis by (simp add: q_def)
  next
    case False
    with x1 r have "x = n * q + (r - 1)" "0 \<le> r - 1" "r - 1 < n" by simp_all
    then have "x div n = q" by (rule int_div_pos_eq)
    moreover from False have "\<not> n dvd x + 1" by (simp add: r_def dvd_eq_mod_eq_0)
    ultimately show ?thesis by (simp add: q_def)
  qed
qed

lemma leap_cases:
  fixes y :: int
  obtains "\<not> 4 dvd y" "\<not> 100 dvd y" "\<not> 400 dvd y"
    | "4 dvd y" "\<not> 100 dvd y" "\<not> 400 dvd y"
    | "4 dvd y" "100 dvd y" "\<not> 400 dvd y"
    | "4 dvd y" "100 dvd y" "400 dvd y"
  using dvd_trans [of 100 400 y] dvd_trans [of 4 100 y] by fastforce

lemma DaysInYear_gregorian: "DaysInYear y = gregorian_year_length y"
  by (cases y rule: leap_cases)
    (simp_all add: DaysInYear_def gregorian_year_length_def gregorian_leap_def mod_eq_0_iff_dvd)

lemma div_succ_shift:
  fixes y c n :: int
  assumes "0 < n" "n dvd c - 1"
  shows "(y + 1 - c) div n = (y - c) div n + (if n dvd y then 1 else 0)"
proof -
  have e: "y - c + 1 = y - (c - 1)" by simp
  have d: "n dvd y - c + 1 \<longleftrightarrow> n dvd y"
    unfolding e by (rule dvd_diff_left_iff [OF assms(2)])
  have "y + 1 - c = y - c + 1" by simp
  then have "(y + 1 - c) div n = (y - c + 1) div n" by (rule arg_cong)
  also have "\<dots> = (y - c) div n + (if n dvd y then 1 else 0)"
    unfolding div_succ [OF assms(1), of "y - c"] d ..
  finally show ?thesis .
qed

lemma DayFromYear_succ: "DayFromYear (y + 1) = DayFromYear y + gregorian_year_length y"
proof -
  have d: "(y + 1 - 1969) div 4 = (y - 1969) div 4 + (if 4 dvd y then 1 else 0)"
    "(y + 1 - 1901) div 100 = (y - 1901) div 100 + (if 100 dvd y then 1 else 0)"
    "(y + 1 - 1601) div 400 = (y - 1601) div 400 + (if 400 dvd y then 1 else 0)"
    by (rule div_succ_shift; simp)+
  show ?thesis
    unfolding DayFromYear_def d gregorian_year_length_def gregorian_leap_def
    by (cases y rule: leap_cases) simp_all
qed

lemma DayFromYear_2000: "DayFromYear 2000 = 10957"
  by (simp add: DayFromYear_def)

lemma DayFromYear_since_2000:
  "DayFromYear y =
     10957 + (if 2000 \<le> y then sum_list (map gregorian_year_length [2000..y - 1])
              else - sum_list (map gregorian_year_length [y..1999]))"
proof (cases "2000 \<le> y")
  case True
  then have "DayFromYear y = 10957 + sum_list (map gregorian_year_length [2000..y - 1])"
  proof (induction y rule: int_ge_induct)
    case base
    show ?case by (simp add: DayFromYear_2000)
  next
    case (step i)
    then have "[2000..i + 1 - 1] = [2000..i - 1] @ [i]"
      using upto_rec2 [of 2000 i] by simp
    with step show ?case by (simp add: DayFromYear_succ)
  qed
  with True show ?thesis by simp
next
  case False
  then have "y \<le> 2000" by simp
  then have "DayFromYear y = 10957 - sum_list (map gregorian_year_length [y..1999])"
  proof (induction y rule: int_le_induct)
    case base
    show ?case by (simp add: DayFromYear_2000)
  next
    case (step i)
    then have "[i - 1..1999] = (i - 1) # [i..1999]"
      using upto_rec1 [of "i - 1" 1999] by simp
    moreover have "DayFromYear i = DayFromYear (i - 1) + gregorian_year_length (i - 1)"
      using DayFromYear_succ [of "i - 1"] by simp
    ultimately show ?case using step by simp
  qed
  with False show ?thesis by simp
qed

lemma month_cases:
  assumes "0 \<le> (month::int)" "month < 12"
  shows "month \<in> {0, 1, 2, 3, 4, 5, 6, 7, 8, 9, 10, 11}"
proof -
  from assms have "month \<in> set [0..11]" by simp
  then show ?thesis unfolding upto_0_11 by simp
qed

lemma MonthStart_sum:
  assumes "0 \<le> month" "month < 12"
  shows "MonthStart month (if gregorian_leap y then 1 else 0)
           = sum_list (take (nat month) (gregorian_month_lengths y))"
  using month_cases [OF assms]
  by (auto simp: MonthStart_def gregorian_month_lengths_def)

lemma MonthStart_range:
  assumes "0 \<le> month" "month < 12" "0 \<le> leap" "leap \<le> 1"
  shows "0 \<le> MonthStart month leap \<and> MonthStart month leap \<le> 335"
  using month_cases [OF assms(1,2)] assms(3,4)
  by (auto simp: MonthStart_def)

lemma DayFromYear_bounds:
  assumes "- 271820 \<le> y" "y \<le> 275759"
  shows "- 100000000 \<le> DayFromYear y" and "DayFromYear y + 335 \<le> 100000000"
proof -
  define a b c where "a = (y - 1969) div 4" and "b = (y - 1901) div 100"
    and "c = (y - 1601) div 400"
  define ra rb rc where "ra = (y - 1969) mod 4" and "rb = (y - 1901) mod 100"
    and "rc = (y - 1601) mod 400"
  have a: "y - 1969 = 4 * a + ra" "0 \<le> ra" "ra < 4"
    and b: "y - 1901 = 100 * b + rb" "0 \<le> rb" "rb < 100"
    and c: "y - 1601 = 400 * c + rc" "0 \<le> rc" "rc < 400"
    by (simp_all add: a_def b_def c_def ra_def rb_def rc_def)
  have d: "DayFromYear y = 365 * y - 719050 + a - b + c"
    by (simp add: DayFromYear_def a_def b_def c_def)
  show "- 100000000 \<le> DayFromYear y"
    unfolding d using a b c assms by linarith
  show "DayFromYear y + 335 \<le> 100000000"
    unfolding d using a b c assms by linarith
qed

lemma MakeDay_first:
  assumes "0 \<le> month" "month < 12"
  shows "MakeDay y month 1 = 10957 + days_since_2000 y (nat month)"
proof -
  have "MakeDay y month 1 = DayFromYear y + MonthStart month (if gregorian_leap y then 1 else 0)"
    using assms
    by (simp add: MakeDay_def DaysInYear_gregorian gregorian_year_length_def Let_def)
  then show ?thesis
    unfolding MonthStart_sum [OF assms] DayFromYear_since_2000 days_since_2000_def by simp
qed

lemma MakeDay_range:
  assumes "- 271820 \<le> y" "y \<le> 275759" "0 \<le> month" "month < 12"
  shows "- 100000000 \<le> MakeDay y month 1 \<and> MakeDay y month 1 \<le> 100000000"
proof -
  have "MakeDay y month 1 = DayFromYear y + MonthStart month (if DaysInYear y = 366 then 1 else 0)"
    using assms by (simp add: MakeDay_def Let_def)
  moreover have "0 \<le> MonthStart month (if DaysInYear y = 366 then 1 else 0)
      \<and> MonthStart month (if DaysInYear y = 366 then 1 else 0) \<le> 335"
    by (rule MonthStart_range) (use assms in simp_all)
  ultimately show ?thesis
    using DayFromYear_bounds [OF assms(1,2)] by linarith
qed

lemma getDay_of_day:
  assumes "- 100000000 \<le> day" "day \<le> 100000000"
  shows "getDay (TimeClip (MakeDate day 0)) = Some ((day + 4) mod 7)"
proof -
  from assms have "\<bar>day * 86400000\<bar> \<le> 8640000000000000" by linarith
  then show ?thesis
    by (simp add: getDay_def TimeClip_def MakeDate_def WeekDay_def Day_def msPerDay_def)
qed

lemma getDay_out_of_range:
  assumes "day < - 100000000 \<or> 100000000 < day"
  shows "getDay (TimeClip (MakeDate day 0)) = None"
proof -
  from assms have "\<bar>day * 86400000\<bar> > 8640000000000000" by linarith
  then show ?thesis
    by (simp add: getDay_def TimeClip_def MakeDate_def msPerDay_def)
qed

lemma MakeFullYear_range:
  "- 271820 \<le> year \<Longrightarrow> year \<le> 275759
     \<Longrightarrow> - 271820 \<le> MakeFullYear year \<and> MakeFullYear year \<le> 275759"
  by (simp add: MakeFullYear_def)

lemma getDay_new_Date:
  assumes "- 271820 \<le> year" "year \<le> 275759" "0 \<le> month" "month < 12"
  shows "getDay (new_Date year month 1)
           = Some (gregorian_weekday (MakeFullYear year) (nat month))"
proof -
  let ?y = "MakeFullYear year"
  from MakeFullYear_range [OF assms(1,2)]
  have "- 100000000 \<le> MakeDay ?y month 1 \<and> MakeDay ?y month 1 \<le> 100000000"
    using assms(3,4) by (intro MakeDay_range) simp_all
  then have "getDay (new_Date year month 1) = Some ((MakeDay ?y month 1 + 4) mod 7)"
    unfolding new_Date_def by (intro getDay_of_day) simp_all
  also have "MakeDay ?y month 1 + 4 = 6 + days_since_2000 ?y (nat month) + 7 * 1565"
    unfolding MakeDay_first [OF assms(3,4)] by simp
  also have "\<dots> mod 7 = gregorian_weekday ?y (nat month)"
    unfolding gregorian_weekday_def by (rule mod_mult_self2)
  finally show ?thesis .
qed

lemma month_cells_None:
  "getDay (new_Date year month 1) = None \<Longrightarrow> month_cells counts year month col = []"
  by (simp add: month_cells_def month_body_None)

lemma month_cells_Some:
  assumes "0 \<le> month" "month < 12" "getDay (new_Date year month 1) = Some f"
  shows "month_cells counts year month col =
     map (cell_of_day counts year month f col) [1..min (daysInMonth year ! nat month) (35 - f)]"
proof -
  from daysInMonth_range [OF assms(1,2), of year]
  have "month_body counts year month \<lparr>svg = [], globalColIndex = col\<rparr> =
     \<lparr>svg = TextEl (leftMargin + (col + 2) * colWidth + cellSize div 2) 16 11
              ''#586069'' ''middle'' (months ! nat month)
            # map (cell_of_day counts year month f col)
                [1..min (daysInMonth year ! nat month) (35 - f)],
      globalColIndex = col + 5\<rparr>"
    by (simp add: month_body_Some [OF assms(3) refl])
  moreover have "filter is_rect (map (cell_of_day counts year month f col) ds)
      = map (cell_of_day counts year month f col) ds" for ds
    by (induction ds) (simp_all add: is_rect_def cell_of_day_def)
  ultimately show ?thesis
    by (simp add: month_cells_def is_rect_def)
qed

lemma month_body_col:
  assumes "0 \<le> month" "month < 12" "getDay (new_Date year month 1) = Some f"
  shows "globalColIndex (month_body counts year month st) = globalColIndex st + 5"
  using daysInMonth_range [OF assms(1,2), of year]
  by (simp add: month_body_Some [OF assms(3) refl])

lemma month_body_svg:
  assumes "0 \<le> month" "month < 12"
  shows "\<exists>es. svg (month_body counts year month st) = svg st @ es"
proof (cases "getDay (new_Date year month 1)")
  case None
  then show ?thesis by (simp add: month_body_None)
next
  case (Some f)
  with daysInMonth_range [OF assms, of year] show ?thesis
    by (simp add: month_body_Some [OF Some refl])
qed

lemma month_loop_svg:
  "set ms \<subseteq> {0..11} \<Longrightarrow> \<exists>es. svg (fold (month_body counts year) ms st) = svg st @ es"
proof (induction ms arbitrary: st)
  case Nil
  show ?case by simp
next
  case (Cons m ms)
  then have "0 \<le> m" "m < 12" by simp_all
  from month_body_svg [OF this] obtain es
    where "svg (month_body counts year m st) = svg st @ es" by blast
  moreover from Cons obtain es'
    where "svg (fold (month_body counts year) ms (month_body counts year m st))
        = svg (month_body counts year m st) @ es'"
    by fastforce
  ultimately show ?case by simp
qed

lemma month_loop_col:
  assumes "\<And>m. m \<in> set ms \<Longrightarrow> 0 \<le> m \<and> m < 12 \<and> (\<exists>f. getDay (new_Date year m 1) = Some f)"
  shows "globalColIndex (fold (month_body counts year) ms st)
           = globalColIndex st + 5 * int (length ms)"
  using assms
proof (induction ms arbitrary: st)
  case Nil
  show ?case by simp
next
  case (Cons m ms)
  from Cons.prems [of m] obtain f where "0 \<le> m" "m < 12" "getDay (new_Date year m 1) = Some f"
    by auto
  then have "globalColIndex (month_body counts year m st) = globalColIndex st + 5"
    by (rule month_body_col)
  moreover have "globalColIndex (fold (month_body counts year) ms (month_body counts year m st))
      = globalColIndex (month_body counts year m st) + 5 * int (length ms)"
    by (rule Cons.IH) (simp add: Cons.prems)
  ultimately show ?case by simp
qed

lemma month_loop_None:
  assumes "\<And>m. m \<in> set ms \<Longrightarrow> getDay (new_Date year m 1) = None"
  shows "fold (month_body counts year) ms st = st"
  using assms by (induction ms arbitrary: st) (simp_all add: month_body_None)

lemma label_loop:
  "fold label_body ws st =
     st\<lparr>svg := svg st @ map (\<lambda>w. TextEl 10 (topMargin + w * rowHeight + cellSize div 2 + 3) 10
                                ''#999'' ''start'' (weekdays ! nat w)) ws\<rparr>"
  by (induction ws arbitrary: st) (simp_all add: label_body_def emit_def)

lemma render_eq:
  "render counts year =
     emit SvgClose (fold (month_body counts year) [0..11]
       \<lparr>svg = SvgOpen svgWidth svgHeight
               # map (\<lambda>w. TextEl 10 (topMargin + w * rowHeight + cellSize div 2 + 3) 10
                             ''#999'' ''start'' (weekdays ! nat w)) [0..6],
        globalColIndex = 0\<rparr>)"
  by (simp add: render_def for_lt_fold label_loop)

lemma DayFromYear_beyond:
  shows "y \<le> - 271822 \<Longrightarrow> DayFromYear y + 335 < - 100000000"
    and "275761 \<le> y \<Longrightarrow> 100000000 < DayFromYear y"
proof -
  define a b c where "a = (y - 1969) div 4" and "b = (y - 1901) div 100"
    and "c = (y - 1601) div 400"
  define ra rb rc where "ra = (y - 1969) mod 4" and "rb = (y - 1901) mod 100"
    and "rc = (y - 1601) mod 400"
  have a: "y - 1969 = 4 * a + ra" "0 \<le> ra" "ra < 4"
    and b: "y - 1901 = 100 * b + rb" "0 \<le> rb" "rb < 100"
    and c: "y - 1601 = 400 * c + rc" "0 \<le> rc" "rc < 400"
    by (simp_all add: a_def b_def c_def ra_def rb_def rc_def)
  have d: "DayFromYear y = 365 * y - 719050 + a - b + c"
    by (simp add: DayFromYear_def a_def b_def c_def)
  show "y \<le> - 271822 \<Longrightarrow> DayFromYear y + 335 < - 100000000"
    unfolding d using a b c by linarith
  show "275761 \<le> y \<Longrightarrow> 100000000 < DayFromYear y"
    unfolding d using a b c by linarith
qed

lemma getDay_new_Date_beyond:
  assumes "year \<le> - 271822 \<or> 275761 \<le> year" "0 \<le> month" "month < 12"
  shows "getDay (new_Date year month 1) = None"
proof -
  from assms(1) have y: "MakeFullYear year = year" by (auto simp: MakeFullYear_def)
  have "MakeDay year month 1 = DayFromYear year + MonthStart month (if DaysInYear year = 366 then 1 else 0)"
    using assms by (simp add: MakeDay_def Let_def)
  moreover have "0 \<le> MonthStart month (if DaysInYear year = 366 then 1 else 0)
      \<and> MonthStart month (if DaysInYear year = 366 then 1 else 0) \<le> 335"
    by (rule MonthStart_range) (use assms in simp_all)
  ultimately have "MakeDay year month 1 < - 100000000 \<or> 100000000 < MakeDay year month 1"
    using assms(1) DayFromYear_beyond [of year] by linarith
  then show ?thesis
    unfolding new_Date_def y by (rule getDay_out_of_range)
qed

lemma render_shape:
  "\<exists>body. svg (render counts year) = SvgOpen svgWidth svgHeight # body @ [SvgClose]"
proof -
  let ?st = "\<lparr>svg = SvgOpen svgWidth svgHeight
               # map (\<lambda>w. TextEl 10 (topMargin + w * rowHeight + cellSize div 2 + 3) 10
                             ''#999'' ''start'' (weekdays ! nat w)) [0..6],
        globalColIndex = 0\<rparr>"
  have "set [0..11] \<subseteq> {0..11}" by simp
  from month_loop_svg [OF this, of counts year ?st] obtain es
    where "svg (fold (month_body counts year) [0..11] ?st) = svg ?st @ es" by blast
  then show ?thesis
    unfolding render_eq by (simp add: emit_def)
qed

lemma cell_of_day_inj:
  assumes "cell_of_day counts year month f col d = cell_of_day counts year month f col d'"
  shows "d = d'"
proof -
  define a b where "a = f + d - 1" and "b = f + d' - 1"
  from assms have "leftMargin + (col + a div 7) * colWidth = leftMargin + (col + b div 7) * colWidth"
    and "topMargin + a mod 7 * rowHeight = topMargin + b mod 7 * rowHeight"
    unfolding cell_of_day_def a_def b_def by simp_all
  then have "a div 7 = b div 7" "a mod 7 = b mod 7"
    unfolding colWidth_def rowHeight_def cellSize_def spacing_def by simp_all
  then have "a = b" by (metis div_mult_mod_eq)
  then show ?thesis unfolding a_def b_def by simp
qed

lemmas date_eval =
  new_Date_def MakeFullYear_def MakeDay_def DaysInYear_def DayFromYear_def MonthStart_def
  MakeDate_def TimeClip_def getDay_def WeekDay_def Day_def msPerDay_def Let_def

subsection \<open>The claims about the renderer\<close>

lemma month_body_cells:
  assumes "0 \<le> month" "month < 12"
  shows "\<exists>es. svg (month_body counts year month st) = svg st @ es
            \<and> filter is_rect es = month_cells counts year month (globalColIndex st)"
proof (cases "getDay (new_Date year month 1)")
  case None
  then show ?thesis by (simp add: month_body_None month_cells_None)
next
  case (Some f)
  let ?cells = "map (cell_of_day counts year month f (globalColIndex st))
      [1..min (daysInMonth year ! nat month) (35 - f)]"
  have "filter is_rect ?cells = ?cells"
    by (induction "[1..min (daysInMonth year ! nat month) (35 - f)]")
      (simp_all add: is_rect_def cell_of_day_def filter_id_conv)
  with daysInMonth_range [OF assms, of year] show ?thesis
    by (simp add: month_body_Some [OF Some refl] month_cells_Some [OF assms Some] is_rect_def)
qed

text \<open>
  Claim C1. For every month and every year, the number of day cells that the renderer
  emits for the month is \<open>min(daysInMonth, 5 * 7 - firstDayOfWeek)\<close> when \<open>actualWeeks\<close>
  is 5, and is \<open>daysInMonth\<close> when \<open>weeksNeeded\<close> is at most 5. (When the first day of the
  month is outside the range of \<^verbatim>\<open>Date\<close>, \<open>weeksNeeded\<close> and \<open>actualWeeks\<close> are \<^verbatim>\<open>NaN\<close>
  and neither condition holds.) The cells of the month are the rectangles that the
  month's pass of the loop appends to the document, whatever came before.
\<close>

theorem month_cells_count:
  assumes "0 \<le> month" "month < 12"
  shows "(actualWeeks_of (weeksNeeded_of (getDay (new_Date year month 1))
              (daysInMonth year ! nat month)) = Some 5 \<longrightarrow>
            (\<exists>f. getDay (new_Date year month 1) = Some f \<and>
               int (length (month_cells counts year month col))
                 = min (daysInMonth year ! nat month) (5 * 7 - f)))
       \<and> ((\<exists>w. weeksNeeded_of (getDay (new_Date year month 1))
                   (daysInMonth year ! nat month) = Some w \<and> w \<le> 5) \<longrightarrow>
            int (length (month_cells counts year month col)) = daysInMonth year ! nat month)
       \<and> (\<exists>es. svg (month_body counts year month st) = svg st @ es
              \<and> filter is_rect es = month_cells counts year month (globalColIndex st))"
proof (cases "getDay (new_Date year month 1)")
  case None
  then show ?thesis
    using month_body_cells [OF assms] by (simp add: weeksNeeded_of_def actualWeeks_of_def)
next
  case (Some f)
  let ?tot = "daysInMonth year ! nat month"
  from getDay_range [OF Some] daysInMonth_range [OF assms, of year]
  have len: "int (length (month_cells counts year month col)) = min ?tot (5 * 7 - f)"
    unfolding month_cells_Some [OF assms Some] by simp
  have "min ?tot (5 * 7 - f) = ?tot" if "(f + ?tot + 6) div 7 \<le> 5"
    using that weeks_bounds(1) [of f ?tot] by linarith
  with len show ?thesis
    using month_body_cells [OF assms] unfolding Some weeksNeeded_Some by simp
qed

theorem month_cells_count_witness:
  "actualWeeks_of (weeksNeeded_of (getDay (new_Date 2024 2 1)) (daysInMonth 2024 ! nat 2)) = Some 5
   \<and> getDay (new_Date 2024 2 1) = Some 5
   \<and> int (length (month_cells Map.empty 2024 2 10)) = 30
   \<and> weeksNeeded_of (getDay (new_Date 2024 1 1)) (daysInMonth 2024 ! nat 1) = Some 5
   \<and> int (length (month_cells Map.empty 2024 1 5)) = 29"
  using month_cells_count [of 2 2024 Map.empty 10] month_cells_count [of 1 2024 Map.empty 5]
  by (simp add: daysInMonth_def isLeapYear_def signed_modulo_int_def weeksNeeded_Some
      actualWeeks_of_def date_eval)

lemma month_loop_counter:
  assumes "- 271820 \<le> year" "year \<le> 275759"
  shows "(\<forall>month st. 0 \<le> month \<and> month < 12 \<longrightarrow>
            globalColIndex (month_body counts year month st) = globalColIndex st + 5)
       \<and> globalColIndex (render counts year) = 60"
proof -
  have valid: "\<exists>f. getDay (new_Date year m 1) = Some f" if "0 \<le> m" "m < 12" for m
    using getDay_new_Date [OF assms that] by simp
  have "globalColIndex (month_body counts year month st) = globalColIndex st + 5"
    if "0 \<le> month" "month < 12" for month st
    using that valid [OF that] by (auto intro: month_body_col)
  moreover have "globalColIndex (fold (month_body counts year) [0..11] st)
      = globalColIndex st + 5 * int (length [0..11::int])" for st
    by (rule month_loop_col) (simp add: valid)
  ultimately show ?thesis
    unfolding render_eq by (simp add: emit_def)
qed

text \<open>
  Claim C2. For every year, a 4-digit integer, the column counter advances by exactly 5
  in every pass of the loop over the months (the columns of the weeks and then the blank
  columns), and stands at 60 after the twelfth.
\<close>

theorem column_counter:
  assumes "1000 \<le> year" "year \<le> 9999"
  shows "(\<forall>month st. 0 \<le> month \<and> month < 12 \<longrightarrow>
            globalColIndex (month_body counts year month st) = globalColIndex st + 5)
       \<and> globalColIndex (render counts year) = 60"
  using assms by (intro month_loop_counter) simp_all

theorem column_counter_witness:
  "(1000::int) \<le> 2024 \<and> (2024::int) \<le> 9999
   \<and> globalColIndex (month_body Map.empty 2024 1 \<lparr>svg = [], globalColIndex = 5\<rparr>) = 10
   \<and> globalColIndex (render Map.empty 2024) = 60"
  using column_counter [of 2024 Map.empty] by simp

text \<open>
  Claim C3. For every month and year, \<open>weeksNeeded\<close> is the ceiling of
  \<open>(firstDayOfWeek + daysInMonth) / 7\<close> and \<open>actualWeeks\<close> is the minimum of \<open>weeksNeeded\<close>
  and 5. The cells of the month are those of the days from 1 to
  \<open>min(daysInMonth, 5 * 7 - firstDayOfWeek)\<close>, each in its place; so when the month needs
  6 columns, the days after \<open>5 * 7 - firstDayOfWeek\<close>, of which there is at least one, have
  no cell. (When \<open>firstDayOfWeek\<close> is \<^verbatim>\<open>NaN\<close>, so are \<open>weeksNeeded\<close> and \<open>actualWeeks\<close>, and
  the month has no cell.)
\<close>

theorem weeks_clamped:
  assumes "0 \<le> month" "month < 12"
  shows "let firstDayOfWeek = getDay (new_Date year month 1);
             totalDays = daysInMonth year ! nat month;
             weeksNeeded = weeksNeeded_of firstDayOfWeek totalDays;
             actualWeeks = actualWeeks_of weeksNeeded;
             cells = month_cells counts year month col
         in case firstDayOfWeek of
              None \<Rightarrow> weeksNeeded = None \<and> actualWeeks = None \<and> cells = []
            | Some f \<Rightarrow>
                weeksNeeded = Some \<lceil>real_of_int (f + totalDays) / 7\<rceil>
              \<and> actualWeeks = Some (min \<lceil>real_of_int (f + totalDays) / 7\<rceil> 5)
              \<and> cells = map (cell_of_day counts year month f col) [1..min totalDays (5 * 7 - f)]
              \<and> (\<forall>d. cell_of_day counts year month f col d \<in> set cells
                     \<longleftrightarrow> 1 \<le> d \<and> d \<le> min totalDays (5 * 7 - f))
              \<and> (\<lceil>real_of_int (f + totalDays) / 7\<rceil> = 6 \<longrightarrow> 5 * 7 - f < totalDays)"
proof (cases "getDay (new_Date year month 1)")
  case None
  then show ?thesis
    by (simp add: weeksNeeded_of_def actualWeeks_of_def month_cells_None)
next
  case (Some f)
  let ?tot = "daysInMonth year ! nat month"
  let ?cell = "cell_of_day counts year month f col"
  have w: "\<lceil>real_of_int (f + ?tot) / 7\<rceil> = (f + ?tot + 6) div 7"
    by (rule ceiling_div_7)
  have cells: "month_cells counts year month col = map ?cell [1..min ?tot (5 * 7 - f)]"
    unfolding month_cells_Some [OF assms Some] by simp
  have "?cell d \<in> set (map ?cell [1..min ?tot (5 * 7 - f)])
      \<longleftrightarrow> 1 \<le> d \<and> d \<le> min ?tot (5 * 7 - f)" for d
    using cell_of_day_inj [of counts year month f col d] by (auto simp: image_iff)
  moreover have "5 * 7 - f < ?tot" if "(f + ?tot + 6) div 7 = 6"
    using that weeks_bounds(2) [of f ?tot] by linarith
  ultimately show ?thesis
    unfolding Let_def Some option.case w cells weeksNeeded_Some actualWeeks_of_def by simp
qed

theorem weeks_clamped_witness:
  "getDay (new_Date 2024 2 1) = Some 5
   \<and> weeksNeeded_of (Some 5) (daysInMonth 2024 ! nat 2) = Some 6
   \<and> actualWeeks_of (Some 6) = Some 5
   \<and> month_cells Map.empty 2024 2 10 = map (cell_of_day Map.empty 2024 2 5 10) [1..30]
   \<and> cell_of_day Map.empty 2024 2 5 10 31 \<notin> set (month_cells Map.empty 2024 2 10)
   \<and> getDay (new_Date 300000 0 1) = None
   \<and> month_cells Map.empty 300000 0 0 = []"
proof -
  have m: "(0::int) \<le> 2" "(2::int) < 12" "(0::int) \<le> 0" "(0::int) < 12" by simp_all
  have f: "getDay (new_Date 2024 2 1) = Some 5" by (simp add: date_eval)
  have n: "getDay (new_Date 300000 0 1) = None" by (simp add: date_eval)
  have t: "daysInMonth 2024 ! nat 2 = 31" by (simp add: daysInMonth_def)
  have w: "\<lceil>real_of_int (5 + 31) / 7\<rceil> = 6" by (simp add: ceiling_div_7)
  note c = weeks_clamped [OF m(1,2), of 2024 Map.empty 10, unfolded Let_def f t w option.case]
  from c have wn: "weeksNeeded_of (Some 5) 31 = Some 6"
    by simp
  from c have "actualWeeks_of (Some 6) = Some 5"
    "month_cells Map.empty 2024 2 10 = map (cell_of_day Map.empty 2024 2 5 10) [1..30]"
    unfolding wn by simp_all
  moreover note wn
  moreover from c have "cell_of_day Map.empty 2024 2 5 10 31 \<in> set (month_cells Map.empty 2024 2 10)
      \<longleftrightarrow> 1 \<le> (31::int) \<and> (31::int) \<le> min 31 (5 * 7 - 5)"
    by blast
  then have "cell_of_day Map.empty 2024 2 5 10 31 \<notin> set (month_cells Map.empty 2024 2 10)"
    by simp
  moreover have "month_cells Map.empty 300000 0 0 = []"
    using weeks_clamped [OF m(3,4), of 300000 Map.empty 0] unfolding Let_def n by simp
  ultimately show ?thesis using f n unfolding t by blast
qed

lemma gregorian_weekday_MakeDay:
  assumes "0 \<le> month" "month < 12"
  shows "gregorian_weekday y (nat month) = (MakeDay y month 1 + 4) mod 7"
proof -
  have "MakeDay y month 1 + 4 = 6 + days_since_2000 y (nat month) + 7 * 1565"
    unfolding MakeDay_first [OF assms] by simp
  then show ?thesis
    unfolding gregorian_weekday_def by (simp only: mod_mult_self2)
qed

lemma isLeapYear_iff_gregorian: "isLeapYear y \<longleftrightarrow> gregorian_leap y"
  using dvd_trans [of 4 400 y]
  by (auto simp: isLeapYear_def gregorian_leap_def smod_eq_0_iff_dvd)

lemma daysInMonth_gregorian: "daysInMonth y = gregorian_month_lengths y"
  by (simp add: daysInMonth_def gregorian_month_lengths_def isLeapYear_iff_gregorian)

lemma month_body_calendar:
  assumes "0 \<le> month" "month < 12"
    and "getDay (new_Date year month 1) = Some (gregorian_weekday year (nat month))"
    and "globalColIndex st = 5 * month"
  shows "month_body counts year month st =
     st\<lparr>svg := svg st @ calendar_month counts year month,
        globalColIndex := 5 * (month + 1)\<rparr>"
proof -
  from daysInMonth_range [OF assms(1,2), of year]
  have r: "28 \<le> daysInMonth year ! nat month" "daysInMonth year ! nat month \<le> 31"
    by simp_all
  show ?thesis
    unfolding month_body_Some [OF assms(3) refl r] assms(4)
    by (simp add: calendar_month_def month_label_def daysInMonth_gregorian Let_def)
qed

lemma month_loop_calendar:
  assumes "\<And>m. 0 \<le> m \<Longrightarrow> m < 12 \<Longrightarrow>
      getDay (new_Date year m 1) = Some (gregorian_weekday year (nat m))"
  shows "0 \<le> i \<Longrightarrow> i \<le> j + 1 \<Longrightarrow> j < 12 \<Longrightarrow> globalColIndex st = 5 * i \<Longrightarrow>
     fold (month_body counts year) [i..j] st =
       st\<lparr>svg := svg st @ concat (map (calendar_month counts year) [i..j]),
          globalColIndex := 5 * (j + 1)\<rparr>"
proof (induction "nat (j + 1 - i)" arbitrary: i st)
  case 0
  then have "i = j + 1" by simp
  with "0.prems" show ?case by simp
next
  case (Suc k)
  then have le: "i \<le> j" and k: "k = nat (j + 1 - (i + 1))" and le': "i + 1 \<le> j + 1"
    by linarith+
  from Suc.prems le have i: "0 \<le> i" "i < 12" by simp_all
  let ?st = "month_body counts year i st"
  have st: "?st = st\<lparr>svg := svg st @ calendar_month counts year i,
      globalColIndex := 5 * (i + 1)\<rparr>"
    using i assms [OF i] Suc.prems(4) by (rule month_body_calendar)
  then have col: "globalColIndex ?st = 5 * (i + 1)" by simp
  have "0 \<le> i + 1" using i by simp
  note IH = Suc.hyps(1) [OF k this le' Suc.prems(3) col]
  have "fold (month_body counts year) [i..j] st
      = fold (month_body counts year) [i + 1..j] ?st"
    using le by (simp add: upto_rec1)
  also note IH
  finally show ?case
    using le unfolding st by (simp add: upto_rec1 [of i j])
qed

lemma render_calendar:
  assumes "- 271820 \<le> year" "year \<le> 275759" "year < 0 \<or> 99 < year"
  shows "svg (render counts year) = calendar counts year"
proof -
  have valid: "getDay (new_Date year m 1) = Some (gregorian_weekday year (nat m))"
    if "0 \<le> m" "m < 12" for m
    using getDay_new_Date [OF assms(1,2) that] assms(3) by (auto simp: MakeFullYear_def)
  let ?st = "\<lparr>svg = SvgOpen svgWidth svgHeight
               # map (\<lambda>w. TextEl 10 (topMargin + w * rowHeight + cellSize div 2 + 3) 10
                             ''#999'' ''start'' (weekdays ! nat w)) [0..6],
        globalColIndex = 0\<rparr>"
  have "fold (month_body counts year) [0..11] ?st =
       ?st\<lparr>svg := svg ?st @ concat (map (calendar_month counts year) [0..11]),
          globalColIndex := 5 * (11 + 1)\<rparr>"
    by (rule month_loop_calendar) (simp_all add: valid)
  then show ?thesis
    unfolding render_eq calendar_def
    by (simp add: emit_def weekday_label_def [abs_def])
qed

lemma getDay_new_Date_two_digit:
  assumes "0 \<le> year" "year \<le> 99" "0 \<le> month" "month < 12"
  shows "getDay (new_Date year month 1) = Some (gregorian_weekday (1900 + year) (nat month))"
  using getDay_new_Date [of year month] assms by (simp add: MakeFullYear_def)

lemma render_beyond_Date:
  assumes "year \<le> - 271822 \<or> 275761 \<le> year"
  shows "globalColIndex (render counts year) = 0"
proof -
  have "fold (month_body counts year) [0..11] st = st" for st
    by (rule month_loop_None) (simp add: getDay_new_Date_beyond assms)
  then show ?thesis
    unfolding render_eq by (simp add: emit_def)
qed

text \<open>
  Claim C4. For every year, a 4-digit integer from the earliest to the latest, and every
  month, \<open>firstDayOfWeek\<close> is the Gregorian weekday (0 for Sunday to 6 for Saturday) of the
  first day of that month of that year. The renderer is total over these years: no branch
  of it fails, its loops are counting loops with fixed bounds (\<open>for_lt\<close> terminates), no
  number in it is \<^verbatim>\<open>NaN\<close>, and the document it returns is the whole calendar of the year.
\<close>

theorem firstDayOfWeek_gregorian:
  assumes "1000 \<le> year" "year \<le> 9999" "0 \<le> month" "month < 12"
  shows "getDay (new_Date year month 1) = Some (gregorian_weekday year (nat month))
       \<and> 0 \<le> gregorian_weekday year (nat month) \<and> gregorian_weekday year (nat month) \<le> 6
       \<and> svg (render counts year) = calendar counts year"
proof -
  from assms have y: "- 271820 \<le> year" "year \<le> 275759" "year < 0 \<or> 99 < year"
    by simp_all
  have "getDay (new_Date year month 1) = Some (gregorian_weekday year (nat month))"
    using getDay_new_Date [OF y(1,2) assms(3,4)] y(3) by (auto simp: MakeFullYear_def)
  moreover have "0 \<le> gregorian_weekday year (nat month) \<and> gregorian_weekday year (nat month) \<le> 6"
    by (simp add: gregorian_weekday_def)
  ultimately show ?thesis using render_calendar [OF y] by blast
qed

theorem firstDayOfWeek_gregorian_witness:
  "(1000::int) \<le> 2024 \<and> (2024::int) \<le> 9999
   \<and> getDay (new_Date 2024 8 1) = Some 0 \<and> gregorian_weekday 2024 (nat 8) = 0
   \<and> getDay (new_Date 1000 0 1) = Some (gregorian_weekday 1000 (nat 0))
   \<and> getDay (new_Date 9999 11 1) = Some (gregorian_weekday 9999 (nat 11))
   \<and> svg (render Map.empty 2024) = calendar Map.empty 2024"
proof -
  have "getDay (new_Date 2024 8 1) = Some 0" by (simp add: date_eval)
  then show ?thesis
    using firstDayOfWeek_gregorian [of 2024 8 Map.empty]
      firstDayOfWeek_gregorian [of 1000 0 Map.empty]
      firstDayOfWeek_gregorian [of 9999 11 Map.empty]
    by simp
qed

lemma svg_size_eval: "svgWidth = 1260" "svgHeight = 170"
  by (simp_all add: svgWidth_def svgHeight_def leftMargin_def topMargin_def totalColumns_def
      colWidth_def rowHeight_def cellSize_def spacing_def)

lemma String_of_size: "String_of 1260 = ''1260''" "String_of 170 = ''170''"
  by (simp_all add: String_of_def)

text \<open>
  Claim C10. Whatever the counts and the year, the document that the renderer returns
  declares a width of 1260 units, the left margin of 60 and 60 columns of 20, and a
  height of 170 units. The rectangle that \<open>main\<close> captures is 1200 units wide, 60 less: no
  point of the rightmost 60 units of the document lies inside it.
\<close>

theorem svg_size:
  \<open>(\<exists>body. svg (render counts year) = SvgOpen 1260 170 # body @ [SvgClose])
   \<and> (\<exists>rest. generateHeatmapSVG counts year =
         ''<svg width="1260" height="170" xmlns="http://www.w3.org/2000/svg" style="background:#fff">''
         @ rest)
   \<and> svgWidth = leftMargin + 60 * colWidth \<and> colWidth = 20 \<and> svgWidth = 1260 \<and> svgHeight = 170
   \<and> clip_width screenshot_clip = 1200
   \<and> svgWidth - (clip_x screenshot_clip + clip_width screenshot_clip) = 60
   \<and> (\<forall>x y. svgWidth - 60 \<le> x \<longrightarrow> \<not> captured screenshot_clip x y)\<close>
proof -
  from render_shape [of counts year] obtain body
    where body: "svg (render counts year) = SvgOpen 1260 170 # body @ [SvgClose]"
    unfolding svg_size_eval by blast
  have "generateHeatmapSVG counts year = markup (SvgOpen 1260 170)
      @ concat (map markup (body @ [SvgClose]))"
    unfolding generateHeatmapSVG_def body by simp
  then have \<open>\<exists>rest. generateHeatmapSVG counts year =
         ''<svg width="1260" height="170" xmlns="http://www.w3.org/2000/svg" style="background:#fff">''
         @ rest\<close>
    by (simp add: markup_def String_of_size)
  moreover have "svgWidth = leftMargin + 60 * colWidth" "colWidth = 20"
    by (simp_all add: svgWidth_def totalColumns_def colWidth_def cellSize_def spacing_def)
  moreover have "\<not> captured screenshot_clip x y" if "svgWidth - 60 \<le> x" for x y
    using that by (simp add: captured_def screenshot_clip_def svg_size_eval)
  moreover have "clip_width screenshot_clip = 1200"
    "svgWidth - (clip_x screenshot_clip + clip_width screenshot_clip) = 60"
    by (simp_all add: screenshot_clip_def svg_size_eval)
  ultimately show ?thesis using body svg_size_eval by blast
qed

theorem svg_size_witness:
  "svgWidth - 60 \<le> 1240 \<and> \<not> captured screenshot_clip 1240 70
   \<and> cell_of_day Map.empty 2024 11 0 55 31 = RectEl 1240 70 16 16 2 ''#ebedf0''"
proof -
  have "cell_of_day Map.empty 2024 11 0 55 31 = RectEl 1240 70 16 16 2 ''#ebedf0''"
    by (simp add: cell_of_day_def leftMargin_def topMargin_def colWidth_def rowHeight_def
        cellSize_def spacing_def count_of_def getColorByCount_def colors_def)
  then show ?thesis
    using svg_size [of Map.empty 2024] by simp
qed

subsection \<open>The loop of the aggregator\<close>

lemma split_not_Nil: "split c s \<noteq> []"
  by (induction s) (simp_all split: list.split)

lemma hd_split: "hd (split c s) = takeWhile (\<lambda>x. x \<noteq> c) s"
  by (induction s) (auto simp: split_not_Nil split: list.split)

lemma get_opt_get: "get v k = Inr w \<Longrightarrow> w = opt_get v k"
  by (cases v) auto

lemma truthy_opt_get: "truthy (opt_get v k) \<Longrightarrow> get v k = Inr (opt_get v k)"
  by (cases v) auto

lemma record_step_eq:
  "record_step counts record =
     (if record = Undefined \<or> record = Null then Inl TypeError
      else case date_key record of
             Some k \<Rightarrow> Inr (assign_property counts k (or_zero_plus_one (read_property counts k)))
           | None \<Rightarrow> if truthy (start_of record) then Inl TypeError else Inr counts)"
proof (cases "record = Undefined \<or> record = Null")
  case True
  then show ?thesis by (auto simp: record_step_def)
next
  case False
  then have g: "get record ''properties'' = Inr (opt_get record ''properties'')"
    by (cases "record") auto
  let ?dateProp = "opt_get (opt_get (opt_get record ''properties'') date_property) ''date''"
  show ?thesis
  proof (cases "truthy (start_of record)")
    case t: True
    then have "get ?dateProp ''start'' = Inr (start_of record)"
      unfolding start_of_def by (rule truthy_opt_get)
    with t False g show ?thesis
      by (cases "start_of record")
        (auto simp: record_step_def date_key_def hd_split Let_def start_of_def [symmetric])
  next
    case f: False
    with False g show ?thesis
      by (cases "start_of record")
        (auto simp: record_step_def date_key_def Let_def start_of_def [symmetric])
  qed
qed

lemma record_step_Inr:
  assumes "record_step counts record = Inr counts'"
  shows "counts' =
     (case date_key record of
        Some k \<Rightarrow> assign_property counts k (or_zero_plus_one (read_property counts k))
      | None \<Rightarrow> counts)"
  using assms unfolding record_step_eq by (auto split: if_splits option.splits)

lemma record_step_well_formed:
  assumes "well_formed record"
  shows "\<exists>counts'. record_step counts record = Inr counts'"
proof -
  from assms have "record \<noteq> Undefined" "record \<noteq> Null"
    by (auto simp: well_formed_def)
  moreover from assms have "date_key record = None \<Longrightarrow> \<not> truthy (start_of record)"
    by (cases "start_of record") (auto simp: well_formed_def date_key_def split: if_splits)
  ultimately show ?thesis
    unfolding record_step_eq by (auto split: option.splits)
qed

lemma count_loop_well_formed:
  "\<forall>r \<in> set records. well_formed r \<Longrightarrow> \<exists>counts'. count_loop counts records = Inr counts'"
proof (induction records arbitrary: counts)
  case Nil
  show ?case by simp
next
  case (Cons r records)
  then obtain c where "record_step counts r = Inr c"
    using record_step_well_formed [of r counts] by auto
  with Cons show ?case by simp
qed

text \<open>Counting a record under one key leaves every other key as it was.\<close>

lemma assign_other:
  "k' \<noteq> k \<Longrightarrow> assign_property counts k v k' = counts k'"
  by (simp add: assign_property_def)

text \<open>
  Under a plain key that is absent, or holds a number, counting a record stores the next
  number. The number of a key: 0 when the key is absent.
\<close>

lemma plain_key_not_proto: "plain_key k \<Longrightarrow> k \<noteq> ''__proto__''"
  by (auto simp: plain_key_def Object_prototype_def)

lemma assign_plain:
  assumes "plain_key k" "counts k = (if n = 0 then None else Some (Number n))"
  shows "assign_property counts k (or_zero_plus_one (read_property counts k)) k
           = Some (Number (n + 1))"
proof -
  from assms have "or_zero_plus_one (read_property counts k) = Number (n + 1)"
    by (auto simp: read_property_def plain_key_def)
  with plain_key_not_proto [OF assms(1)] show ?thesis
    by (simp add: assign_property_def)
qed

lemma count_loop_key:
  assumes "count_loop counts records = Inr counts'"
    and "plain_key k \<or> \<not> (\<exists>r \<in> set records. date_key r = Some k)"
    and "counts k = (if n = 0 then None else Some (Number n))"
  shows "counts' k =
     (if n + length (filter (\<lambda>r. date_key r = Some k) records) = 0 then None
      else Some (Number (n + length (filter (\<lambda>r. date_key r = Some k) records))))"
  using assms
proof (induction records arbitrary: counts n)
  case Nil
  then show ?case by simp
next
  case (Cons r records)
  from Cons.prems(1) obtain c where step: "record_step counts r = Inr c"
    and rest: "count_loop c records = Inr counts'"
    by (auto split: sum.splits)
  note c = record_step_Inr [OF step]
  from Cons.prems(2)
  have tail: "plain_key k \<or> \<not> (\<exists>r \<in> set records. date_key r = Some k)" by auto
  show ?case
  proof (cases "date_key r = Some k")
    case True
    with Cons.prems(2) have "plain_key k" by auto
    with c True Cons.prems(3) have "c k = Some (Number (n + 1))"
      by (simp add: assign_plain)
    then have "c k = (if n + 1 = 0 then None else Some (Number (n + 1)))" by simp
    from Cons.IH [OF rest tail this] True show ?thesis by simp
  next
    case False
    with c have "c k = counts k"
      by (auto simp: assign_other split: option.splits)
    with Cons.prems(3) have "c k = (if n = 0 then None else Some (Number n))" by simp
    from Cons.IH [OF rest tail this] False show ?thesis by simp
  qed
qed

lemma fetchCounts_key:
  assumes "fetchCounts results = Inr counts"
    and "plain_key k \<or> (\<forall>r \<in> set results. \<forall>k'. date_key r = Some k' \<longrightarrow> plain_key k')"
  shows "counts k =
     (if \<exists>r \<in> set results. date_key r = Some k
      then Some (Number (length (filter (\<lambda>r. date_key r = Some k) results)))
      else None)"
proof -
  from assms(2) have "plain_key k \<or> \<not> (\<exists>r \<in> set results. date_key r = Some k)"
    by auto
  from count_loop_key [OF assms(1) [unfolded fetchCounts_def] this, of 0]
  show ?thesis by (auto simp: filter_empty_conv)
qed

lemma count_loop_append:
  "count_loop counts (xs @ ys) =
     (case count_loop counts xs of Inl e \<Rightarrow> Inl e | Inr counts' \<Rightarrow> count_loop counts' ys)"
  by (induction xs arbitrary: counts) (simp_all split: sum.splits)

lemma start_of_record_with_start: "start_of (record_with_start v) = v"
  by (simp add: start_of_def record_with_start_def date_property_def)

lemma start_of_record_without_date: "start_of record_without_date = Undefined"
  by (simp add: start_of_def record_without_date_def date_property_def)

lemma well_formed_record_with_start:
  "well_formed (record_with_start (Str s))" "well_formed (record_with_start Null)"
  "well_formed record_without_date"
  unfolding well_formed_def start_of_record_with_start start_of_record_without_date
  by (simp_all add: record_with_start_def record_without_date_def)

lemma date_key_record_with_start:
  "date_key (record_with_start (Str s)) =
     (if s = [] then None else Some (takeWhile (\<lambda>c. c \<noteq> CHR ''T'') s))"
  "date_key (record_with_start Null) = None"
  "date_key record_without_date = None"
  unfolding date_key_def start_of_record_with_start start_of_record_without_date
  by simp_all

text \<open>A key that begins with a digit, as the date part of a date string does, is plain.\<close>

lemma plain_key_digit:
  assumes "k \<noteq> []" "hd k \<in> set ''0123456789''"
  shows "plain_key k"
proof -
  have "\<forall>name \<in> set (map fst Object_prototype). hd name \<notin> set ''0123456789''"
    by (simp add: Object_prototype_def)
  with assms(2) have "k \<notin> set (map fst Object_prototype)" by blast
  then show ?thesis
    unfolding plain_key_def by (simp add: map_of_eq_None_iff)
qed

lemma plain_key_date:
  assumes "s \<noteq> []" "hd s \<in> set ''0123456789''"
  shows "plain_key (takeWhile (\<lambda>c. c \<noteq> CHR ''T'') s)"
proof -
  from assms obtain c cs where s: "s = c # cs" and c: "c \<in> set ''0123456789''"
    by (cases s) auto
  from c have "c \<noteq> CHR ''T''" by auto
  with s c show ?thesis
    by (intro plain_key_digit) simp_all
qed

text \<open>
  What the loop does with a key that is not plain: under \<^verbatim>\<open>constructor\<close> it stores a
  string, and the writes to \<^verbatim>\<open>__proto__\<close> leave no key.
\<close>

lemma fetchCounts_inherited_keys:
  "fetchCounts [record_with_start (Str ''constructor'')]
     = Inr [''constructor'' \<mapsto> Text ''function Object() { [native code] }1'']"
  "fetchCounts [record_with_start (Str ''__proto__''), record_with_start (Str ''__proto__'')]
     = Inr Map.empty"
  by (simp_all add: fetchCounts_def record_step_eq record_with_start_def
      date_key_record_with_start [unfolded record_with_start_def] read_property_def
      assign_property_def Object_prototype_def native_function_def)

subsection \<open>The claims about the aggregator\<close>

text \<open>
  Claim C6. For every list of records, the aggregator counts a record under the part of
  its start value before the first \<^verbatim>\<open>T\<close>; so \<^verbatim>\<open>2024-03-05T10:00:00Z\<close> and \<^verbatim>\<open>2024-03-05\<close>
  are counted under one key, and the count of a key is the number of records counted under
  it. This holds of every plain key, whatever the records, and of every key when the
  records are counted under plain keys, as records with date strings are. On a well-formed
  list of records the aggregator returns.
\<close>

theorem fetchCounts_counts:
  "(fetchCounts results = Inr counts \<longrightarrow>
      (\<forall>k. plain_key k
             \<or> (\<forall>r \<in> set results. \<forall>k'. date_key r = Some k' \<longrightarrow> plain_key k') \<longrightarrow>
         counts k =
           (if \<exists>r \<in> set results. date_key r = Some k
            then Some (Number (length (filter (\<lambda>r. date_key r = Some k) results)))
            else None)))
   \<and> ((\<forall>r \<in> set results. well_formed r) \<longrightarrow> (\<exists>counts'. fetchCounts results = Inr counts'))
   \<and> (s \<noteq> [] \<longrightarrow>
        date_key (record_with_start (Str s)) = Some (takeWhile (\<lambda>c. c \<noteq> CHR ''T'') s))
   \<and> (s \<noteq> [] \<and> hd s \<in> set ''0123456789'' \<longrightarrow>
        plain_key (takeWhile (\<lambda>c. c \<noteq> CHR ''T'') s))"
proof (intro conjI impI allI)
  fix k assume "fetchCounts results = Inr counts"
    and "plain_key k \<or> (\<forall>r \<in> set results. \<forall>k'. date_key r = Some k' \<longrightarrow> plain_key k')"
  then show "counts k =
           (if \<exists>r \<in> set results. date_key r = Some k
            then Some (Number (length (filter (\<lambda>r. date_key r = Some k) results)))
            else None)"
    by (rule fetchCounts_key)
next
  assume "\<forall>r \<in> set results. well_formed r"
  then show "\<exists>counts'. fetchCounts results = Inr counts'"
    unfolding fetchCounts_def by (rule count_loop_well_formed)
next
  assume "s \<noteq> []"
  then show "date_key (record_with_start (Str s)) = Some (takeWhile (\<lambda>c. c \<noteq> CHR ''T'') s)"
    by (simp add: date_key_record_with_start)
next
  assume "s \<noteq> [] \<and> hd s \<in> set ''0123456789''"
  then show "plain_key (takeWhile (\<lambda>c. c \<noteq> CHR ''T'') s)"
    by (intro plain_key_date) simp_all
qed

theorem fetchCounts_counts_witness:
  "\<exists>counts. fetchCounts [record_with_start (Str ''2024-03-05T10:00:00Z''),
                          record_with_start (Str ''2024-03-05'')] = Inr counts
     \<and> plain_key ''2024-03-05''
     \<and> counts ''2024-03-05'' = Some (Number 2)
     \<and> counts ''2024-03-05T10:00:00Z'' = None"
proof -
  let ?rs = "[record_with_start (Str ''2024-03-05T10:00:00Z''),
              record_with_start (Str ''2024-03-05'')]"
  have "\<forall>r \<in> set ?rs. well_formed r"
    by (simp add: well_formed_record_with_start)
  with fetchCounts_counts [of ?rs Map.empty "''x''"]
  obtain counts where c: "fetchCounts ?rs = Inr counts" by blast
  have p: "plain_key ''2024-03-05''"
    using fetchCounts_counts [of ?rs counts "''2024-03-05''"] by simp
  then have "\<forall>r \<in> set ?rs. \<forall>k'. date_key r = Some k' \<longrightarrow> plain_key k'"
    by (simp add: date_key_record_with_start)
  with c fetchCounts_counts [of ?rs counts "''x''"]
  have "\<forall>k. counts k =
         (if \<exists>r \<in> set ?rs. date_key r = Some k
          then Some (Number (length (filter (\<lambda>r. date_key r = Some k) ?rs)))
          else None)" by blast
  then have "counts ''2024-03-05'' = Some (Number 2)" "counts ''2024-03-05T10:00:00Z'' = None"
    by (simp_all add: date_key_record_with_start)
  with c p show ?thesis by blast
qed

text \<open>
  Claim C7. A record that has no date property, or whose start value is \<^verbatim>\<open>null\<close>,
  \<^verbatim>\<open>undefined\<close> or absent, is skipped: its pass of the loop does not throw and leaves every
  count as it was, so the aggregator's result is the same as without the record.
\<close>

theorem skipped_records:
  assumes "record = Obj kvs"
    and "opt_get (opt_get record ''properties'') date_property = Undefined
         \<or> start_of record = Undefined \<or> start_of record = Null"
  shows "record_step counts record = Inr counts
       \<and> count_loop counts (before @ record # after) = count_loop counts (before @ after)
       \<and> fetchCounts (before @ record # after) = fetchCounts (before @ after)"
proof -
  from assms(2) have "start_of record = Undefined \<or> start_of record = Null"
    by (auto simp: start_of_def)
  then have "date_key record = None" "\<not> truthy (start_of record)"
    by (auto simp: date_key_def)
  with assms(1) have step: "record_step c record = Inr c" for c
    unfolding record_step_eq by simp
  then have "count_loop c (before @ record # after) = count_loop c (before @ after)" for c
    unfolding count_loop_append by (simp split: sum.splits)
  with step show ?thesis unfolding fetchCounts_def by blast
qed

theorem skipped_records_witness:
  "record_step [''2024-03-05'' \<mapsto> Number 1] record_without_date
     = Inr [''2024-03-05'' \<mapsto> Number 1]
   \<and> record_step [''2024-03-05'' \<mapsto> Number 1] (record_with_start Null)
     = Inr [''2024-03-05'' \<mapsto> Number 1]
   \<and> fetchCounts [record_with_start (Str ''2024-03-05''), record_without_date,
                   record_with_start Null]
       = fetchCounts [record_with_start (Str ''2024-03-05''), record_with_start Null]"
proof -
  have 1: "record_without_date = Obj [(''object'', Str ''page''), (''properties'', Obj [])]"
    by (simp add: record_without_date_def)
  have 2: "opt_get (opt_get record_without_date ''properties'') date_property = Undefined"
    by (simp add: record_without_date_def)
  have 3: "start_of (record_with_start Null) = Null"
    by (rule start_of_record_with_start)
  show ?thesis
    using skipped_records [OF 1, of "[''2024-03-05'' \<mapsto> Number 1]"
        "[record_with_start (Str ''2024-03-05'')]" "[record_with_start Null]"] 2
      skipped_records [OF record_with_start_def, of Null "[''2024-03-05'' \<mapsto> Number 1]"
        "[]" "[]"] 3
    by simp
qed

text \<open>
  Claim C9. For every list of records, a date is a key of the mapping that the
  aggregator returns exactly when at least one record is counted under it, and its value
  is a number that is at least 1. This holds of every plain key, whatever the records, and
  of every key when the records are counted under plain keys, as records with date strings
  are.
\<close>

theorem counts_positive:
  assumes "fetchCounts results = Inr counts"
    and "plain_key k \<or> (\<forall>r \<in> set results. \<forall>k'. date_key r = Some k' \<longrightarrow> plain_key k')"
  shows "(k \<in> dom counts \<longleftrightarrow> (\<exists>r \<in> set results. date_key r = Some k))
       \<and> (\<forall>v. counts k = Some v \<longrightarrow> (\<exists>n. v = Number n \<and> 1 \<le> n))"
proof -
  note fetchCounts_key [OF assms]
  moreover have "1 \<le> length (filter (\<lambda>r. date_key r = Some k) results)"
    if "\<exists>r \<in> set results. date_key r = Some k"
    using that by (auto simp: Suc_le_eq filter_empty_conv)
  ultimately show ?thesis by (auto simp: dom_def)
qed

theorem counts_positive_witness:
  "\<exists>counts. fetchCounts [record_with_start (Str ''2024-12-31''), record_without_date] = Inr counts
     \<and> plain_key ''2024-12-31'' \<and> plain_key ''2024-01-01''
     \<and> ''2024-12-31'' \<in> dom counts \<and> ''2024-01-01'' \<notin> dom counts
     \<and> counts ''2024-12-31'' = Some (Number 1)"
proof -
  let ?rs = "[record_with_start (Str ''2024-12-31''), record_without_date]"
  have "\<forall>r \<in> set ?rs. well_formed r"
    by (simp add: well_formed_record_with_start)
  then obtain counts where c: "fetchCounts ?rs = Inr counts"
    unfolding fetchCounts_def using count_loop_well_formed by blast
  have p: "plain_key ''2024-12-31''" "plain_key ''2024-01-01''"
    by (rule plain_key_digit; simp)+
  from counts_positive [OF c, of "''2024-12-31''"] counts_positive [OF c, of "''2024-01-01''"] p
  have d: "''2024-12-31'' \<in> dom counts" "''2024-01-01'' \<notin> dom counts"
    "\<forall>v. counts ''2024-12-31'' = Some v \<longrightarrow> (\<exists>n. v = Number n \<and> 1 \<le> n)"
    by (simp_all add: date_key_record_with_start)
  have "counts ''2024-12-31'' = Some (Number 1)"
    using fetchCounts_key [OF c, of "''2024-12-31''"] p
    by (simp add: date_key_record_with_start)
  with c d p show ?thesis by blast
qed

end
